theory Spec2Isabelle
  imports Complex_Main "HOL-Library.Monad_Syntax"
begin

section \<open>JSON values as Python sees them\<close>

text \<open>
  \<^verbatim>\<open>get_world_cities.py\<close> works on what \<^verbatim>\<open>json.load\<close> returns: \<^verbatim>\<open>None\<close>, booleans,
  numbers, strings, lists and dictionaries with string keys. A dictionary keeps its
  insertion order, so it is an association list whose keys are distinct.
  \<^verbatim>\<open>json.dumps\<close> followed by \<^verbatim>\<open>json.loads\<close> is taken to be the identity on such values.
\<close>

datatype json =
    JNull
  | JBool bool
  | JInt int
  | JFloat rat
  | JStr string
  | JArr "json list"
  | JObj "(string \<times> json) list"

type_synonym dict = "(string \<times> json) list"

text \<open>Python's truth value of an object (\<^verbatim>\<open>if x:\<close>, \<^verbatim>\<open>if not x:\<close>).\<close>

fun truthy :: "json \<Rightarrow> bool" where
  "truthy JNull = False"
| "truthy (JBool b) = b"
| "truthy (JInt n) = (n \<noteq> 0)"
| "truthy (JFloat r) = (r \<noteq> 0)"
| "truthy (JStr s) = (s \<noteq> [])"
| "truthy (JArr xs) = (xs \<noteq> [])"
| "truthy (JObj kvs) = (kvs \<noteq> [])"

text \<open>\<^verbatim>\<open>isinstance(x, dict)\<close>.\<close>

fun is_dict :: "json \<Rightarrow> bool" where
  "is_dict (JObj kvs) = True"
| "is_dict _ = False"

text \<open>\<^verbatim>\<open>d[k] = v\<close>: an existing key keeps its place, a new key goes to the end.\<close>

fun dict_set :: "string \<Rightarrow> json \<Rightarrow> dict \<Rightarrow> dict" where
  "dict_set k v [] = [(k, v)]"
| "dict_set k v (p # ps) = (if fst p = k then (k, v) # ps else p # dict_set k v ps)"

text \<open>\<^verbatim>\<open>d.update(other)\<close>: the entries of \<open>other\<close> are stored one after the other.\<close>

fun dict_update :: "dict \<Rightarrow> dict \<Rightarrow> dict" where
  "dict_update d [] = d"
| "dict_update d (p # ps) = dict_update (dict_set (fst p) (snd p) d) ps"

text \<open>\<^verbatim>\<open>d.get(k)\<close> on a dictionary: \<^verbatim>\<open>None\<close> when the key is missing.\<close>

definition dict_get :: "dict \<Rightarrow> string \<Rightarrow> json" where
  "dict_get d k = (case map_of d k of None \<Rightarrow> JNull | Some v \<Rightarrow> v)"

text \<open>
  The operations used inside the \<^verbatim>\<open>try\<close> blocks. There every exception is caught by
  \<^verbatim>\<open>except Exception\<close>, so which one it was does not matter: \<open>None\<close> stands for
  "an exception is raised".

  \<^verbatim>\<open>x.get(k, default)\<close>: only a dictionary has \<^verbatim>\<open>get\<close> (AttributeError otherwise).
\<close>

fun py_get :: "json \<Rightarrow> string \<Rightarrow> json \<Rightarrow> json option" where
  "py_get (JObj kvs) k dflt = Some (case map_of kvs k of None \<Rightarrow> dflt | Some v \<Rightarrow> v)"
| "py_get _ k dflt = None"

text \<open>
  \<^verbatim>\<open>x.get(qid, {})\<close> where the key is itself a value taken from a response. The keys
  of a JSON dictionary are strings, so a key of another hashable type is never found; a
  list or a dictionary is unhashable (TypeError).
\<close>

fun py_get_key :: "json \<Rightarrow> json \<Rightarrow> json \<Rightarrow> json option" where
  "py_get_key (JObj kvs) (JStr k) dflt = Some (case map_of kvs k of None \<Rightarrow> dflt | Some v \<Rightarrow> v)"
| "py_get_key (JObj kvs) (JArr xs) dflt = None"
| "py_get_key (JObj kvs) (JObj ys) dflt = None"
| "py_get_key (JObj kvs) _ dflt = Some dflt"
| "py_get_key _ _ dflt = None"

text \<open>
  \<^verbatim>\<open>x[0]\<close>: the first element of a list, the first character of a string; KeyError on
  a dictionary (its keys are strings), TypeError on the rest, IndexError when empty.
\<close>

fun py_first :: "json \<Rightarrow> json option" where
  "py_first (JArr (x # xs)) = Some x"
| "py_first (JStr (c # cs)) = Some (JStr [c])"
| "py_first _ = None"

text \<open>\<^verbatim>\<open>x["k"]\<close>: KeyError on a dictionary without the key, TypeError on the rest.\<close>

fun py_item :: "json \<Rightarrow> string \<Rightarrow> json option" where
  "py_item (JObj kvs) k = map_of kvs k"
| "py_item _ k = None"

section \<open>Exceptions that leave the program, files, the external API\<close>

text \<open>
  An exception raised outside the \<^verbatim>\<open>try\<close> blocks ends the process. \<open>NonStringKey\<close> is
  not a Python exception: it marks the one place where the model stops short of Python.
  Entity identifiers and city names are strings (the data model calls an identifier an
  opaque string key). A number or a boolean in their place would be used as a dictionary
  key, compared by Python's numeric equality and turned into a string by \<^verbatim>\<open>json.dump\<close>;
  that is not modelled, and the modelled run ends with \<open>NonStringKey\<close> there.
\<close>

datatype py_error =
    FileNotFoundError
  | JSONDecodeError
  | KeyError
  | TypeError
  | AttributeError
  | NonStringKey

text \<open>A file is missing, holds text that is no JSON, or holds a JSON value.\<close>

datatype 'a jfile = Absent | Malformed | Content 'a

text \<open>
  One line of the ledger \<^verbatim>\<open>cities_enriched.jsonl\<close>, as \<^verbatim>\<open>json.loads(line.strip())\<close>
  sees it: it raises \<^verbatim>\<open>JSONDecodeError\<close> or returns a value.
\<close>

datatype ledger_line = Unparseable | Parsed json

text \<open>
  The files under \<^verbatim>\<open>data/\<close>. The three cache files are written by the program only, as
  dictionaries; a cache file that parses is taken to hold a dictionary. The ledger is
  \<open>None\<close> while \<^verbatim>\<open>cities_enriched.jsonl\<close> does not exist.
\<close>

record files =
  input_file :: "json jfile"
  output_file :: "ledger_line list option"
  qid_cache_file :: "dict jfile"
  countries_file :: "dict jfile"
  states_file :: "dict jfile"

text \<open>
  The external knowledge base: what a request returns after \<^verbatim>\<open>response.json()\<close>, or
  \<open>None\<close> when \<^verbatim>\<open>requests.get\<close> or \<^verbatim>\<open>response.json()\<close> raises (transport or parse
  failure). \<open>search\<close> is the \<^verbatim>\<open>wbsearchentities\<close> request for a name, \<open>entity\<close> the
  \<^verbatim>\<open>Special:EntityData\<close> request for an identifier. Within one run the same request gets
  the same answer; two runs may use two different oracles.
\<close>

record api =
  search :: "string \<Rightarrow> json option"
  entity :: "json \<Rightarrow> json option"

datatype level = City | Country | State

fun level_str :: "level \<Rightarrow> string" where
  "level_str City = ''City''"
| "level_str Country = ''Country''"
| "level_str State = ''State''"

text \<open>
  What the process does to the outside world, in order: a search request, the entity
  request of \<^verbatim>\<open>enrich_city\<close>, the entity request of \<^verbatim>\<open>get_entity_info\<close> with its
  level, and \<^verbatim>\<open>time.sleep(n)\<close>.
\<close>

datatype event =
    Search string
  | FetchCity json
  | FetchEntity string level
  | Sleep nat

text \<open>The dictionaries held in memory by \<^verbatim>\<open>process_entries\<close>, the files and the trace.\<close>

record state =
  qid_lookup :: dict
  country_cache :: dict
  state_cache :: dict
  disk :: files
  trace :: "event list"

section \<open>Helpers\<close>

text \<open>\<^verbatim>\<open>load_json\<close>: \<^verbatim>\<open>{}\<close> for a missing file, otherwise \<^verbatim>\<open>json.load\<close>, which may raise.\<close>

fun load_json :: "dict jfile \<Rightarrow> py_error + dict" where
  "load_json Absent = Inr []"
| "load_json Malformed = Inl JSONDecodeError"
| "load_json (Content d) = Inr d"

text \<open>\<^verbatim>\<open>json.load(open(INPUT_FILE, 'r', encoding='utf-8'))\<close>.\<close>

fun load_input :: "json jfile \<Rightarrow> py_error + json" where
  "load_input Absent = Inl FileNotFoundError"
| "load_input Malformed = Inl JSONDecodeError"
| "load_input (Content j) = Inr j"

text \<open>\<^verbatim>\<open>append_jsonl(OUTPUT_FILE, record)\<close>: mode \<^verbatim>\<open>'a'\<close> creates the file if needed.\<close>

definition append_jsonl :: "dict \<Rightarrow> files \<Rightarrow> files" where
  "append_jsonl r fs =
     fs\<lparr>output_file := Some ((case output_file fs of None \<Rightarrow> [] | Some ls \<Rightarrow> ls) @ [Parsed (JObj r)])\<rparr>"

text \<open>
  A value can be put into a Python set if it is hashable: lists and dictionaries are not.
\<close>

fun hashable :: "json \<Rightarrow> bool" where
  "hashable (JArr xs) = False"
| "hashable (JObj kvs) = False"
| "hashable _ = True"

text \<open>
  The body of the loop of \<^verbatim>\<open>load_processed_city_names\<close>. Only \<^verbatim>\<open>JSONDecodeError\<close> is
  caught: a line that parses to something other than a dictionary has no \<^verbatim>\<open>get\<close>
  (AttributeError), and an unhashable name cannot be added to the set (TypeError).
  A record without the key adds \<^verbatim>\<open>None\<close>.
\<close>

fun add_line :: "ledger_line \<Rightarrow> json set \<Rightarrow> py_error + json set" where
  "add_line Unparseable processed = Inr processed"
| "add_line (Parsed (JObj r)) processed =
     (if hashable (dict_get r ''CityNameEn'') then Inr (insert (dict_get r ''CityNameEn'') processed)
      else Inl TypeError)"
| "add_line (Parsed _) processed = Inl AttributeError"

fun add_lines :: "ledger_line list \<Rightarrow> json set \<Rightarrow> py_error + json set" where
  "add_lines [] processed = Inr processed"
| "add_lines (l # ls) processed =
     (case add_line l processed of Inl e \<Rightarrow> Inl e | Inr processed' \<Rightarrow> add_lines ls processed')"

definition load_processed_city_names :: "ledger_line list option \<Rightarrow> py_error + json set" where
  "load_processed_city_names out =
     (case out of None \<Rightarrow> Inr {} | Some ls \<Rightarrow> add_lines ls {})"

section \<open>Wikidata integration\<close>

text \<open>
  The body of the \<^verbatim>\<open>try\<close> block of \<^verbatim>\<open>get_wikidata_id\<close>, up to the identifier:
  \<open>None\<close> when an exception is raised, \<open>Some None\<close> when \<^verbatim>\<open>data.get("search")\<close> is
  empty or missing, \<open>Some (Some qid)\<close> for \<^verbatim>\<open>data["search"][0]["id"]\<close>.
\<close>

definition search_try :: "json option \<Rightarrow> json option option" where
  "search_try response = do {
     data \<leftarrow> response;
     results \<leftarrow> py_get data ''search'' JNull;
     if truthy results then do {
       first \<leftarrow> py_first results;
       qid \<leftarrow> py_item first ''id'';
       Some (Some qid)
     } else Some None
   }"

text \<open>\<^verbatim>\<open>save_json\<close> of each of the three dictionaries held in memory.\<close>

definition save_qid :: "state \<Rightarrow> state" where
  "save_qid st = st\<lparr>disk := (disk st)\<lparr>qid_cache_file := Content (qid_lookup st)\<rparr>\<rparr>"

definition save_countries :: "state \<Rightarrow> state" where
  "save_countries st = st\<lparr>disk := (disk st)\<lparr>countries_file := Content (country_cache st)\<rparr>\<rparr>"

definition save_states :: "state \<Rightarrow> state" where
  "save_states st = st\<lparr>disk := (disk st)\<lparr>states_file := Content (state_cache st)\<rparr>\<rparr>"

definition emit :: "event \<Rightarrow> state \<Rightarrow> state" where
  "emit e st = st\<lparr>trace := trace st @ [e]\<rparr>"

text \<open>
  \<^verbatim>\<open>get_wikidata_id(name, qid_lookup)\<close>: the cached identifier, or one search request;
  a found identifier is stored and saved, \<^verbatim>\<open>None\<close> is returned otherwise.
\<close>

definition get_wikidata_id :: "api \<Rightarrow> string \<Rightarrow> state \<Rightarrow> json \<times> state" where
  "get_wikidata_id a name st =
     (case map_of (qid_lookup st) name of
        Some qid \<Rightarrow> (qid, st)
      | None \<Rightarrow>
          (case search_try (search a name) of
             Some (Some qid) \<Rightarrow>
               (qid, save_qid ((emit (Search name) st)\<lparr>qid_lookup := dict_set name qid (qid_lookup st)\<rparr>))
           | _ \<Rightarrow> (JNull, emit (Search name) st)))"

text \<open>The local function \<^verbatim>\<open>get_claim(prop)\<close> of both fetchers, on the \<^verbatim>\<open>claims\<close> value.\<close>

definition get_claim :: "json \<Rightarrow> string \<Rightarrow> json option" where
  "get_claim claims prop = do {
     values \<leftarrow> py_get claims prop (JArr []);
     if \<not> truthy values then Some JNull
     else do {
       first \<leftarrow> py_first values;
       mainsnak \<leftarrow> py_get first ''mainsnak'' (JObj []);
       datavalue \<leftarrow> py_get mainsnak ''datavalue'' (JObj []);
       py_get datavalue ''value'' JNull
     }
   }"

text \<open>\<^verbatim>\<open>labels.get(lang, {}).get("value")\<close>.\<close>

definition label_value :: "json \<Rightarrow> string \<Rightarrow> json option" where
  "label_value labels lang = do {
     l \<leftarrow> py_get labels lang (JObj []);
     py_get l ''value'' JNull
   }"

text \<open>\<^verbatim>\<open>get_claim(prop).get("id") if isinstance(get_claim(prop), dict) else None\<close>.\<close>

definition claim_id :: "json \<Rightarrow> string \<Rightarrow> json option" where
  "claim_id claims prop = do {
     v \<leftarrow> get_claim claims prop;
     if is_dict v then py_get v ''id'' JNull else Some JNull
   }"

text \<open>\<^verbatim>\<open>get_claim("P625")[field] if get_claim("P625") else None\<close>.\<close>

definition claim_coord :: "json \<Rightarrow> string \<Rightarrow> json option" where
  "claim_coord claims field = do {
     v \<leftarrow> get_claim claims ''P625'';
     if truthy v then py_item v field else Some JNull
   }"

text \<open>\<^verbatim>\<open>get_claim("P1082").get("amount") if isinstance(..., dict) else get_claim("P1082")\<close>.\<close>

definition claim_population :: "json \<Rightarrow> json option" where
  "claim_population claims = do {
     v \<leftarrow> get_claim claims ''P1082'';
     if is_dict v then py_get v ''amount'' JNull else Some v
   }"

text \<open>The first lines of both \<^verbatim>\<open>try\<close> blocks: the entity, its labels and its claims.\<close>

definition entity_parts :: "json option \<Rightarrow> json \<Rightarrow> (json \<times> json) option" where
  "entity_parts response qid = do {
     data \<leftarrow> response;
     entities \<leftarrow> py_get data ''entities'' (JObj []);
     ent \<leftarrow> py_get_key entities qid (JObj []);
     labels \<leftarrow> py_get ent ''labels'' (JObj []);
     claims \<leftarrow> py_get ent ''claims'' (JObj []);
     Some (labels, claims)
   }"

text \<open>The body of the \<^verbatim>\<open>try\<close> block of \<^verbatim>\<open>enrich_city\<close>.\<close>

definition enrich_city_try :: "json option \<Rightarrow> json \<Rightarrow> dict option" where
  "enrich_city_try response qid = do {
     (labels, claims) \<leftarrow> entity_parts response qid;
     name_ar \<leftarrow> label_value labels ''ar'';
     country \<leftarrow> claim_id claims ''P17'';
     state \<leftarrow> claim_id claims ''P131'';
     lat \<leftarrow> claim_coord claims ''latitude'';
     lon \<leftarrow> claim_coord claims ''longitude'';
     population \<leftarrow> claim_population claims;
     iso \<leftarrow> get_claim claims ''P300'';
     Some [(''CityNameAr'', name_ar), (''CountryQID'', country), (''StateQID'', state),
           (''Latitude'', lat), (''Longitude'', lon), (''Population'', population),
           (''IsoCode'', iso)]
   }"

text \<open>\<^verbatim>\<open>enrich_city(qid)\<close>: any exception is printed and \<^verbatim>\<open>{}\<close> is returned.\<close>

definition enrich_city :: "api \<Rightarrow> json \<Rightarrow> dict" where
  "enrich_city a qid = (case enrich_city_try (entity a qid) qid of None \<Rightarrow> [] | Some info \<Rightarrow> info)"

text \<open>
  The body of the \<^verbatim>\<open>try\<close> block of \<^verbatim>\<open>get_entity_info\<close>. The capital of a country and
  the country of a state are stored only when the claim is an entity reference.
\<close>

definition get_entity_info_try :: "json option \<Rightarrow> string \<Rightarrow> level \<Rightarrow> dict option" where
  "get_entity_info_try response qid lvl = do {
     (labels, claims) \<leftarrow> entity_parts response (JStr qid);
     name_en \<leftarrow> label_value labels ''en'';
     name_ar \<leftarrow> label_value labels ''ar'';
     let info = [(level_str lvl @ ''QID'', JStr qid), (level_str lvl @ ''NameEn'', name_en),
                 (level_str lvl @ ''NameAr'', name_ar)];
     info \<leftarrow> (if lvl = Country then do {
                 iso \<leftarrow> get_claim claims ''P297'';
                 capital \<leftarrow> get_claim claims ''P36'';
                 let info = dict_set ''IsoAlpha2'' iso info;
                 if is_dict capital then do {
                   cid \<leftarrow> py_get capital ''id'' JNull;
                   Some (dict_set ''CapitalQID'' cid info)
                 } else Some info
               } else Some info);
     info \<leftarrow> (if lvl = State then do {
                 iso \<leftarrow> get_claim claims ''P300'';
                 parent \<leftarrow> get_claim claims ''P17'';
                 let info = dict_set ''IsoCode'' iso info;
                 if is_dict parent then do {
                   pid \<leftarrow> py_get parent ''id'' JNull;
                   Some (dict_set ''CountryQID'' pid info)
                 } else Some info
               } else Some info);
     Some info
   }"

definition get_entity_info :: "api \<Rightarrow> string \<Rightarrow> level \<Rightarrow> dict" where
  "get_entity_info a qid lvl =
     (case get_entity_info_try (entity a (JStr qid)) qid lvl of None \<Rightarrow> [] | Some info \<Rightarrow> info)"

section \<open>The main process\<close>

text \<open>
  \<^verbatim>\<open>c["CityNameEn"]\<close> as the filter and the loop use it, as a set element and as a key
  of \<^verbatim>\<open>qid_lookup\<close>.
\<close>

fun city_name :: "json \<Rightarrow> py_error + string" where
  "city_name (JObj c) =
     (case map_of c ''CityNameEn'' of
        None \<Rightarrow> Inl KeyError
      | Some (JStr s) \<Rightarrow> Inr s
      | Some (JArr xs) \<Rightarrow> Inl TypeError
      | Some (JObj kvs) \<Rightarrow> Inl TypeError
      | Some _ \<Rightarrow> Inl NonStringKey)"
| "city_name _ = Inl TypeError"

text \<open>
  \<^verbatim>\<open>for c in cities\<close>: a list gives its elements, a dictionary its keys, a string its
  characters; anything else is not iterable.
\<close>

fun py_iter :: "json \<Rightarrow> py_error + json list" where
  "py_iter (JArr xs) = Inr xs"
| "py_iter (JObj kvs) = Inr (map (\<lambda>p. JStr (fst p)) kvs)"
| "py_iter (JStr s) = Inr (map (\<lambda>c. JStr [c]) s)"
| "py_iter _ = Inl TypeError"

text \<open>\<^verbatim>\<open>[c for c in cities if c["CityNameEn"] not in processed]\<close>.\<close>

fun select_unprocessed :: "json list \<Rightarrow> json set \<Rightarrow> py_error + json list" where
  "select_unprocessed [] processed = Inr []"
| "select_unprocessed (c # cs) processed =
     (case city_name c of
        Inl e \<Rightarrow> Inl e
      | Inr n \<Rightarrow>
          (case select_unprocessed cs processed of
             Inl e \<Rightarrow> Inl e
           | Inr rest \<Rightarrow> Inr (if JStr n \<notin> processed then c # rest else rest)))"

text \<open>
  The two parent stages of the loop body. \<open>Inl\<close> is an exception that leaves
  \<^verbatim>\<open>process_entries\<close>; the state reached so far (a cache already saved) is kept with it.
\<close>

definition country_stage :: "api \<Rightarrow> json \<Rightarrow> json \<Rightarrow> dict \<Rightarrow> state \<Rightarrow> (py_error + dict) \<times> state" where
  "country_stage a qid cqid city st =
     (if truthy cqid then
        (case cqid of
           JStr c \<Rightarrow>
             (let st1 = (if map_of (country_cache st) c = None
                         then save_countries ((emit (FetchEntity c Country) st)
                                \<lparr>country_cache := dict_set c (JObj (get_entity_info a c Country)) (country_cache st)\<rparr>)
                         else st)
              in (case map_of (country_cache st1) c of
                    None \<Rightarrow> (Inl KeyError, st1)
                  | Some country_info \<Rightarrow>
                      (case py_get country_info ''CapitalQID'' JNull of
                         None \<Rightarrow> (Inl AttributeError, st1)
                       | Some capital_qid \<Rightarrow>
                           (Inr (dict_set ''IsCapital'' (JBool (capital_qid = qid))
                                   (dict_set ''CountryDetails'' country_info city)), st1))))
         | JArr xs \<Rightarrow> (Inl TypeError, st)
         | JObj kvs \<Rightarrow> (Inl TypeError, st)
         | _ \<Rightarrow> (Inl NonStringKey, st))
      else (Inr (dict_set ''IsCapital'' (JBool False) city), st))"

definition state_stage :: "api \<Rightarrow> json \<Rightarrow> dict \<Rightarrow> state \<Rightarrow> (py_error + dict) \<times> state" where
  "state_stage a sqid city st =
     (if truthy sqid then
        (case sqid of
           JStr s \<Rightarrow>
             (let st1 = (if map_of (state_cache st) s = None
                         then save_states ((emit (FetchEntity s State) st)
                                \<lparr>state_cache := dict_set s (JObj (get_entity_info a s State)) (state_cache st)\<rparr>)
                         else st)
              in (case map_of (state_cache st1) s of
                    None \<Rightarrow> (Inl KeyError, st1)
                  | Some state_info \<Rightarrow> (Inr (dict_set ''StateDetails'' state_info city), st1)))
         | JArr xs \<Rightarrow> (Inl TypeError, st)
         | JObj kvs \<Rightarrow> (Inl TypeError, st)
         | _ \<Rightarrow> (Inl NonStringKey, st))
      else (Inr city, st))"

text \<open>
  How one pass through the loop body ends: \<^verbatim>\<open>continue\<close> after a failed resolution,
  a record appended to the ledger, or an exception.
\<close>

datatype step_result = Skipped | Emitted dict | Raised py_error

text \<open>The body of \<^verbatim>\<open>for idx, city in enumerate(to_process, 1)\<close>.\<close>

definition process_city :: "api \<Rightarrow> json \<Rightarrow> state \<Rightarrow> step_result \<times> state" where
  "process_city a c st =
     (case city_name c of
        Inl e \<Rightarrow> (Raised e, st)
      | Inr name \<Rightarrow>
          (case c of
             JObj city \<Rightarrow>
               (let (qid, st1) = get_wikidata_id a name st in
                if \<not> truthy qid then (Skipped, st1)
                else
                  (let city_info = enrich_city a qid;
                       st2 = emit (FetchCity qid) st1;
                       city1 = dict_update city city_info
                   in (case country_stage a qid (dict_get city_info ''CountryQID'') city1 st2 of
                         (Inl e, st3) \<Rightarrow> (Raised e, st3)
                       | (Inr city2, st3) \<Rightarrow>
                           (case state_stage a (dict_get city_info ''StateQID'') city2 st3 of
                              (Inl e, st4) \<Rightarrow> (Raised e, st4)
                            | (Inr city3, st4) \<Rightarrow>
                                (Emitted city3,
                                 emit (Sleep 1) (st4\<lparr>disk := append_jsonl city3 (disk st4)\<rparr>))))))
           | _ \<Rightarrow> (Raised TypeError, st)))"

text \<open>The loop: an exception ends it, \<^verbatim>\<open>continue\<close> and a finished pass go on.\<close>

fun process_loop :: "api \<Rightarrow> json list \<Rightarrow> state \<Rightarrow> py_error option \<times> state" where
  "process_loop a [] st = (None, st)"
| "process_loop a (c # cs) st =
     (case process_city a c st of
        (Raised e, st') \<Rightarrow> (Some e, st')
      | (_, st') \<Rightarrow> process_loop a cs st')"

text \<open>
  The start of \<^verbatim>\<open>process_entries()\<close>, up to \<^verbatim>\<open>to_process\<close>: the files are read in
  the order of the source, and the first exception ends the process. The result is the
  list to process and the dictionaries now held in memory.
\<close>

definition startup :: "files \<Rightarrow> py_error + (json list \<times> state)" where
  "startup fs =
     (case load_input (input_file fs) of
        Inl e \<Rightarrow> Inl e
      | Inr cities \<Rightarrow>
     (case load_json (qid_cache_file fs) of
        Inl e \<Rightarrow> Inl e
      | Inr qids \<Rightarrow>
     (case load_json (countries_file fs) of
        Inl e \<Rightarrow> Inl e
      | Inr countries \<Rightarrow>
     (case load_json (states_file fs) of
        Inl e \<Rightarrow> Inl e
      | Inr states \<Rightarrow>
     (case load_processed_city_names (output_file fs) of
        Inl e \<Rightarrow> Inl e
      | Inr processed \<Rightarrow>
     (case py_iter cities of
        Inl e \<Rightarrow> Inl e
      | Inr cs \<Rightarrow>
     (case select_unprocessed cs processed of
        Inl e \<Rightarrow> Inl e
      | Inr to_process \<Rightarrow>
          Inr (to_process,
               \<lparr>qid_lookup = qids, country_cache = countries, state_cache = states,
                disk = fs, trace = []\<rparr>))))))))"

text \<open>
  \<^verbatim>\<open>process_entries()\<close>. The result is the exception that ended the process, if any,
  the files as the process leaves them, and what it did to the outside world.
\<close>

definition process_entries :: "api \<Rightarrow> files \<Rightarrow> py_error option \<times> files \<times> event list" where
  "process_entries a fs =
     (case startup fs of
        Inl e \<Rightarrow> (Some e, fs, [])
      | Inr (to_process, st) \<Rightarrow>
          (let (err, st') = process_loop a to_process st in (err, disk st', trace st')))"

section \<open>Notions used to state the properties\<close>

text \<open>
  A valid line of the ledger is a record whose name can be put into the set of
  processed names; \<open>line_name\<close> is what \<^verbatim>\<open>record.get("CityNameEn")\<close> returns for it.
\<close>

fun valid_line :: "ledger_line \<Rightarrow> bool" where
  "valid_line (Parsed (JObj r)) = hashable (dict_get r ''CityNameEn'')"
| "valid_line _ = False"

fun line_name :: "ledger_line \<Rightarrow> json" where
  "line_name (Parsed (JObj r)) = dict_get r ''CityNameEn''"
| "line_name _ = JNull"

text \<open>The lines of the ledger file; a file that does not exist has none.\<close>

definition ledger :: "files \<Rightarrow> ledger_line list" where
  "ledger fs = (case output_file fs of None \<Rightarrow> [] | Some ls \<Rightarrow> ls)"

text \<open>A cache file read as a mapping: what \<^verbatim>\<open>load_json\<close> would find under a key.\<close>

definition cache_of :: "dict jfile \<Rightarrow> string \<Rightarrow> json option" where
  "cache_of f = (case f of Content d \<Rightarrow> map_of d | _ \<Rightarrow> Map.empty)"

text \<open>
  How the dictionaries in memory may differ between an earlier state \<open>st\<close> and a later
  state \<open>st'\<close> of one run: entries are only added, and an added entry holds what the
  external source answered.
\<close>

definition grows :: "api \<Rightarrow> state \<Rightarrow> state \<Rightarrow> bool" where
  "grows a st st' \<longleftrightarrow>
     map_of (qid_lookup st) \<subseteq>\<^sub>m map_of (qid_lookup st')
   \<and> map_of (country_cache st) \<subseteq>\<^sub>m map_of (country_cache st')
   \<and> map_of (state_cache st) \<subseteq>\<^sub>m map_of (state_cache st')
   \<and> (\<forall>k q. map_of (qid_lookup st) k = None \<and> map_of (qid_lookup st') k = Some q
          \<longrightarrow> search_try (search a k) = Some (Some q))
   \<and> (\<forall>k v. map_of (country_cache st) k = None \<and> map_of (country_cache st') k = Some v
          \<longrightarrow> v = JObj (get_entity_info a k Country))
   \<and> (\<forall>k v. map_of (state_cache st) k = None \<and> map_of (state_cache st') k = Some v
          \<longrightarrow> v = JObj (get_entity_info a k State))"

text \<open>
  How the trace may differ between an earlier state and a later state of one run: a search
  request is issued only for a name that was not cached, every name added to the cache was
  searched for, and the entity of a country or state is requested exactly once when it
  enters its cache and never otherwise.
\<close>

definition traced :: "state \<Rightarrow> state \<Rightarrow> bool" where
  "traced st st' \<longleftrightarrow>
     (\<exists>evs. trace st' = trace st @ evs
        \<and> (\<forall>k. Search k \<in> set evs \<longrightarrow> map_of (qid_lookup st) k = None)
        \<and> (\<forall>k. map_of (qid_lookup st) k = None \<and> map_of (qid_lookup st') k \<noteq> None
               \<longrightarrow> Search k \<in> set evs)
        \<and> (\<forall>k. count_list evs (FetchEntity k Country) =
               (if map_of (country_cache st) k = None \<and> map_of (country_cache st') k \<noteq> None then 1 else 0))
        \<and> (\<forall>k. count_list evs (FetchEntity k State) =
               (if map_of (state_cache st) k = None \<and> map_of (state_cache st') k \<noteq> None then 1 else 0)))"

text \<open>The cache files hold what the dictionaries in memory hold.\<close>

definition synced :: "state \<Rightarrow> bool" where
  "synced st \<longleftrightarrow>
     load_json (qid_cache_file (disk st)) = Inr (qid_lookup st)
   \<and> load_json (countries_file (disk st)) = Inr (country_cache st)
   \<and> load_json (states_file (disk st)) = Inr (state_cache st)"

text \<open>The ledger lines one pass through the loop body appends.\<close>

fun emitted_lines :: "step_result \<Rightarrow> ledger_line list" where
  "emitted_lines (Emitted r) = [Parsed (JObj r)]"
| "emitted_lines _ = []"

text \<open>The events added to the trace between an earlier and a later state.\<close>

definition new_events :: "state \<Rightarrow> state \<Rightarrow> event list" where
  "new_events st st' = drop (length (trace st)) (trace st')"

section \<open>A small world to run the process in\<close>

text \<open>
  A statement list holding one value, an entity document and a search response, in the
  shape the external API delivers them.
\<close>

definition statement :: "json \<Rightarrow> json" where
  "statement v = JArr [JObj [(''mainsnak'', JObj [(''datavalue'', JObj [(''value'', v)])])]]"

definition entity_doc :: "string \<Rightarrow> dict \<Rightarrow> dict \<Rightarrow> json" where
  "entity_doc qid labels claims =
     JObj [(''entities'', JObj [(qid, JObj [(''labels'', JObj labels), (''claims'', JObj claims)])])]"

definition search_doc :: "string \<Rightarrow> json" where
  "search_doc qid = JObj [(''search'', JArr [JObj [(''id'', JStr qid)]])]"

text \<open>
  Testville (\<open>Q1\<close>) is the capital of country \<open>Q2\<close>; Othertown (\<open>Q3\<close>) lies in \<open>Q2\<close>
  and in state \<open>Q4\<close>, whose entity request fails; the search for Nowhere has no result;
  any other request fails.
\<close>

definition test_api :: api where
  "test_api = \<lparr>
     search = (\<lambda>n. if n = ''Testville'' then Some (search_doc ''Q1'')
                   else if n = ''Othertown'' then Some (search_doc ''Q3'')
                   else if n = ''Nowhere'' then Some (JObj [(''search'', JArr [])])
                   else None),
     entity = (\<lambda>q.
       if q = JStr ''Q1'' then
         Some (entity_doc ''Q1'' []
           [(''P17'', statement (JObj [(''id'', JStr ''Q2'')])),
            (''P625'', statement (JObj [(''latitude'', JFloat 10), (''longitude'', JFloat 20)]))])
       else if q = JStr ''Q2'' then
         Some (entity_doc ''Q2'' []
           [(''P36'', statement (JObj [(''id'', JStr ''Q1'')])),
            (''P297'', statement (JStr ''TV''))])
       else if q = JStr ''Q3'' then
         Some (entity_doc ''Q3'' [(''ar'', JObj [(''value'', JStr ''O'')])]
           [(''P17'', statement (JObj [(''id'', JStr ''Q2'')])),
            (''P131'', statement (JObj [(''id'', JStr ''Q4'')]))])
       else None)\<rparr>"

text \<open>An input record with two caller fields, one of them named like a fetched field.\<close>

definition city_in :: "string \<Rightarrow> json" where
  "city_in n = JObj [(''CityNameEn'', JStr n), (''Population'', JInt 5), (''Note'', JStr ''kept'')]"

text \<open>A first run on empty caches and no ledger, and the files it leaves.\<close>

definition fresh_files :: files where
  "fresh_files = \<lparr>input_file = Content (JArr [city_in ''Testville'', city_in ''Nowhere'', city_in ''Othertown'']),
     output_file = None, qid_cache_file = Absent, countries_file = Absent, states_file = Absent\<rparr>"

definition country_Q2 :: json where
  "country_Q2 = JObj [(''CountryQID'', JStr ''Q2''), (''CountryNameEn'', JNull),
     (''CountryNameAr'', JNull), (''IsoAlpha2'', JStr ''TV''), (''CapitalQID'', JStr ''Q1'')]"

definition testville_record :: dict where
  "testville_record =
     [(''CityNameEn'', JStr ''Testville''), (''Population'', JNull), (''Note'', JStr ''kept''),
      (''CityNameAr'', JNull), (''CountryQID'', JStr ''Q2''), (''StateQID'', JNull),
      (''Latitude'', JFloat 10), (''Longitude'', JFloat 20), (''IsoCode'', JNull),
      (''CountryDetails'', country_Q2), (''IsCapital'', JBool True)]"

definition othertown_record :: dict where
  "othertown_record =
     [(''CityNameEn'', JStr ''Othertown''), (''Population'', JNull), (''Note'', JStr ''kept''),
      (''CityNameAr'', JStr ''O''), (''CountryQID'', JStr ''Q2''), (''StateQID'', JStr ''Q4''),
      (''Latitude'', JNull), (''Longitude'', JNull), (''IsoCode'', JNull),
      (''CountryDetails'', country_Q2), (''IsCapital'', JBool False), (''StateDetails'', JObj [])]"

definition after_first_run :: files where
  "after_first_run = fresh_files\<lparr>
     output_file := Some [Parsed (JObj testville_record), Parsed (JObj othertown_record)],
     qid_cache_file := Content [(''Testville'', JStr ''Q1''), (''Othertown'', JStr ''Q3'')],
     countries_file := Content [(''Q2'', country_Q2)],
     states_file := Content [(''Q4'', JObj [])]\<rparr>"

text \<open>The same input with filled caches and no ledger.\<close>

definition warm_files :: files where
  "warm_files = fresh_files\<lparr>qid_cache_file := Content [(''Testville'', JStr ''Q1'')],
     countries_file := Content [(''Q2'', country_Q2)], states_file := Content [(''Q4'', JObj [])]\<rparr>"

definition warm_state :: state where
  "warm_state = \<lparr>qid_lookup = [(''Testville'', JStr ''Q1'')], country_cache = [(''Q2'', country_Q2)],
     state_cache = [(''Q4'', JObj [])], disk = warm_files, trace = []\<rparr>"

text \<open>The same world with the entity request for country \<open>Q2\<close> failing.\<close>

definition down_api :: api where
  "down_api = test_api\<lparr>entity := (\<lambda>q. if q = JStr ''Q1'' then entity test_api q else None)\<rparr>"

text \<open>An input of one record, no ledger, no caches, and the state the loop starts in.\<close>

definition single_file :: files where
  "single_file = fresh_files\<lparr>input_file := Content (JArr [city_in ''Testville''])\<rparr>"

definition cold_state :: state where
  "cold_state = \<lparr>qid_lookup = [], country_cache = [], state_cache = [], disk = single_file, trace = []\<rparr>"

text \<open>The files a run with the failing country request leaves.\<close>

definition after_down_run :: files where
  "after_down_run = single_file\<lparr>
     output_file := Some [Parsed (JObj
        [(''CityNameEn'', JStr ''Testville''), (''Population'', JNull), (''Note'', JStr ''kept''),
         (''CityNameAr'', JNull), (''CountryQID'', JStr ''Q2''), (''StateQID'', JNull),
         (''Latitude'', JFloat 10), (''Longitude'', JFloat 20), (''IsoCode'', JNull),
         (''CountryDetails'', JObj []), (''IsCapital'', JBool False)])],
     qid_cache_file := Content [(''Testville'', JStr ''Q1'')],
     countries_file := Content [(''Q2'', JObj [])]\<rparr>"

text \<open>The keys the loop body writes into a record: the seven of \<^verbatim>\<open>enrich_city\<close> and the three it sets itself.\<close>

definition pipeline_keys :: "string list" where
  "pipeline_keys = [''CityNameAr'', ''CountryQID'', ''StateQID'', ''Latitude'', ''Longitude'',
     ''Population'', ''IsoCode'', ''CountryDetails'', ''IsCapital'', ''StateDetails'']"

text \<open>
  The city's identifier \<open>qid\<close> is the capital recorded for its country: a country
  identifier \<open>cqid\<close> was extracted, the country cache has a record for it, and the
  record's \<^verbatim>\<open>CapitalQID\<close> is \<open>qid\<close>.
\<close>

definition is_capital :: "json \<Rightarrow> json \<Rightarrow> (string \<Rightarrow> json option) \<Rightarrow> bool" where
  "is_capital qid cqid countries \<longleftrightarrow>
     truthy cqid \<and>
     (case cqid of
        JStr k \<Rightarrow> (case countries k of
                     Some (JObj info) \<Rightarrow> map_of info ''CapitalQID'' = Some qid
                   | _ \<Rightarrow> False)
      | _ \<Rightarrow> False)"

text \<open>The records of the input file, in order; none when the file cannot be read or iterated.\<close>

definition input_records :: "files \<Rightarrow> json list" where
  "input_records fs =
     (case load_input (input_file fs) of
        Inr cities \<Rightarrow> (case py_iter cities of Inr cs \<Rightarrow> cs | Inl e \<Rightarrow> [])
      | Inl e \<Rightarrow> [])"

text \<open>The name of an input record whose \<^verbatim>\<open>CityNameEn\<close> is a string.\<close>

definition name_of :: "json \<Rightarrow> string" where
  "name_of c = (case city_name c of Inr n \<Rightarrow> n | Inl e \<Rightarrow> [])"

text \<open>An input of two names that the search does not resolve.\<close>

definition two_misses :: files where
  "two_misses = fresh_files\<lparr>input_file := Content (JArr [city_in ''Nowhere'', city_in ''Elsewhere''])\<rparr>"

text \<open>
  The search for a name does not produce an identifier: the request or the parsing of its
  answer raises (transport or parse failure), the answer has no results, or taking the
  identifier out of it raises.
\<close>

definition search_fails :: "api \<Rightarrow> string \<Rightarrow> bool" where
  "search_fails a n = (case search_try (search a n) of Some (Some qid) \<Rightarrow> False | _ \<Rightarrow> True)"

text \<open>The later trace starts with the earlier one.\<close>

definition extends :: "state \<Rightarrow> state \<Rightarrow> bool" where
  "extends st st' \<longleftrightarrow> (\<exists>evs. trace st' = trace st @ evs)"

text \<open>An extracted parent identifier as the external source delivers it: a string, or nothing.\<close>

definition id_ok :: "json \<Rightarrow> bool" where
  "id_ok j \<longleftrightarrow> \<not> truthy j \<or> (case j of JStr s \<Rightarrow> True | _ \<Rightarrow> False)"

text \<open>Every entity document yields such identifiers for the country and the state of a city.\<close>

definition api_ids_ok :: "api \<Rightarrow> bool" where
  "api_ids_ok a \<longleftrightarrow>
     (\<forall>q. id_ok (dict_get (enrich_city a q) ''CountryQID'')
        \<and> id_ok (dict_get (enrich_city a q) ''StateQID''))"

text \<open>Every cached record is a dictionary, as \<^verbatim>\<open>get_entity_info\<close> returns it.\<close>

definition all_dicts :: "(string \<Rightarrow> json option) \<Rightarrow> bool" where
  "all_dicts m \<longleftrightarrow> (\<forall>k v. m k = Some v \<longrightarrow> is_dict v)"

text \<open>
  The persisted data has the shape the program itself writes and the input contract asks
  for: a ledger line is unparseable or a record with a hashable name, an input file that
  parses holds a list of records with string names, a cached country is a dictionary.
\<close>

definition data_ok :: "files \<Rightarrow> bool" where
  "data_ok fs \<longleftrightarrow>
     (\<forall>l \<in> set (ledger fs). l = Unparseable \<or> valid_line l)
   \<and> (\<forall>j. input_file fs = Content j \<longrightarrow>
         (\<exists>cs. j = JArr cs \<and> (\<forall>c \<in> set cs. \<exists>n. city_name c = Inr n)))
   \<and> all_dicts (cache_of (countries_file fs))"

text \<open>The input file is missing or unparseable, or a cache file exists but is malformed.\<close>

definition startup_abort :: "files \<Rightarrow> bool" where
  "startup_abort fs \<longleftrightarrow>
     input_file fs = Absent \<or> input_file fs = Malformed \<or> qid_cache_file fs = Malformed
   \<or> countries_file fs = Malformed \<or> states_file fs = Malformed"

text \<open>
  The entity document for \<open>qid\<close> is there and its claims are a dictionary, but the
  property \<open>p\<close> is missing from it or has no statement.
\<close>

definition lacks_claim :: "api \<Rightarrow> json \<Rightarrow> string \<Rightarrow> bool" where
  "lacks_claim a qid p =
     (case entity_parts (entity a qid) qid of
        Some (labels, JObj claims) \<Rightarrow>
          \<not> truthy (case map_of claims p of None \<Rightarrow> JArr [] | Some v \<Rightarrow> v)
      | _ \<Rightarrow> False)"

text \<open>Which property each claim-derived field of \<^verbatim>\<open>enrich_city\<close> is read from.\<close>

definition city_claim_fields :: "(string \<times> string) list" where
  "city_claim_fields =
     [(''P17'', ''CountryQID''), (''P131'', ''StateQID''), (''P625'', ''Latitude''),
      (''P625'', ''Longitude''), (''P1082'', ''Population''), (''P300'', ''IsoCode'')]"

text \<open>The same for the level-specific fields of \<^verbatim>\<open>get_entity_info\<close>.\<close>

fun parent_claim_fields :: "level \<Rightarrow> (string \<times> string) list" where
  "parent_claim_fields Country = [(''P297'', ''IsoAlpha2''), (''P36'', ''CapitalQID'')]"
| "parent_claim_fields State = [(''P300'', ''IsoCode''), (''P17'', ''CountryQID'')]"
| "parent_claim_fields City = []"

text \<open>The keys of the dictionary \<^verbatim>\<open>enrich_city\<close> returns when no exception is raised.\<close>

definition city_keys :: "string list" where
  "city_keys = [''CityNameAr'', ''CountryQID'', ''StateQID'', ''Latitude'', ''Longitude'',
     ''Population'', ''IsoCode'']"

text \<open>How a pass through the loop body will end.\<close>

datatype fate = WillSkip | WillRaise | WillEmit

fun kind_of :: "step_result \<Rightarrow> fate" where
  "kind_of Skipped = WillSkip"
| "kind_of (Raised e) = WillRaise"
| "kind_of (Emitted r) = WillEmit"

text \<open>
  What \<^verbatim>\<open>get_wikidata_id\<close> returns for a name, given the identifier cache: the cached
  identifier, or what the search yields.
\<close>

definition resolve :: "api \<Rightarrow> (string \<Rightarrow> json option) \<Rightarrow> string \<Rightarrow> json" where
  "resolve a qids n =
     (case qids n of
        Some qid \<Rightarrow> qid
      | None \<Rightarrow> (case search_try (search a n) of Some (Some qid) \<Rightarrow> qid | _ \<Rightarrow> JNull))"

text \<open>The cache holds something for this country that is not a dictionary.\<close>

definition bad_country :: "(string \<Rightarrow> json option) \<Rightarrow> json \<Rightarrow> bool" where
  "bad_country countries cqid =
     (case cqid of
        JStr k \<Rightarrow> (case countries k of Some v \<Rightarrow> \<not> is_dict v | None \<Rightarrow> False)
      | _ \<Rightarrow> False)"

text \<open>
  How the pass for a record named \<open>n\<close> ends, told from the two caches and the external
  source alone: skipped when the name does not resolve, an exception when a parent
  identifier cannot be used as a key or the cached country has no \<^verbatim>\<open>get\<close>, emitted
  otherwise.
\<close>

definition fate_of :: "api \<Rightarrow> (string \<Rightarrow> json option) \<Rightarrow> (string \<Rightarrow> json option) \<Rightarrow> string \<Rightarrow> fate" where
  "fate_of a qids countries n =
     (let qid = resolve a qids n in
      if \<not> truthy qid then WillSkip
      else
        (let cqid = dict_get (enrich_city a qid) ''CountryQID'';
             sqid = dict_get (enrich_city a qid) ''StateQID''
         in if \<not> id_ok cqid \<or> (truthy cqid \<and> bad_country countries cqid) \<or> \<not> id_ok sqid
            then WillRaise else WillEmit))"

definition fate_at :: "api \<Rightarrow> state \<Rightarrow> json \<Rightarrow> fate" where
  "fate_at a st c = fate_of a (map_of (qid_lookup st)) (map_of (country_cache st)) (name_of c)"

text \<open>The records a loop with these fates emits: it stops at the first exception.\<close>

fun plan :: "(json \<Rightarrow> fate) \<Rightarrow> json list \<Rightarrow> json list" where
  "plan f [] = []"
| "plan f (c # cs) =
     (case f c of WillRaise \<Rightarrow> [] | WillSkip \<Rightarrow> plan f cs | WillEmit \<Rightarrow> c # plan f cs)"

(*DEFS-END*)

section \<open>Dictionaries\<close>

lemma map_of_dict_set: "map_of (dict_set k v d) = (map_of d)(k \<mapsto> v)"
  by (induction d) auto

lemma map_of_dict_update_other:
  "k \<notin> fst ` set other \<Longrightarrow> map_of (dict_update d other) k = map_of d k"
  by (induction other arbitrary: d) (auto simp: map_of_dict_set)

section \<open>Replaying the ledger\<close>

lemma add_line_valid: "valid_line l \<Longrightarrow> add_line l P = Inr (insert (line_name l) P)"
  by (cases l rule: valid_line.cases) auto

lemma add_lines_valid:
  "\<forall>l \<in> set ls. valid_line l \<Longrightarrow> add_lines ls P = Inr (P \<union> line_name ` set ls)"
  by (induction ls arbitrary: P) (auto simp: add_line_valid)

lemma add_lines_append:
  "add_lines (xs @ ys) P = (case add_lines xs P of Inl e \<Rightarrow> Inl e | Inr P' \<Rightarrow> add_lines ys P')"
  by (induction xs arbitrary: P) (auto split: sum.splits)

text \<open>An unparseable line anywhere among valid lines changes nothing.\<close>

lemma add_lines_skip:
  assumes "\<forall>l \<in> set ls. valid_line l"
  shows "add_lines (take i ls @ Unparseable # drop i ls) {} = Inr (line_name ` set ls)"
proof -
  have t: "\<forall>l \<in> set (take i ls). valid_line l" and d: "\<forall>l \<in> set (drop i ls). valid_line l"
    using assms by (auto dest: in_set_takeD in_set_dropD)
  have "add_lines (take i ls @ Unparseable # drop i ls) {}
      = Inr (line_name ` set (take i ls) \<union> line_name ` set (drop i ls))"
    by (simp add: add_lines_append add_lines_valid [OF t] add_lines_valid [OF d])
  also have "line_name ` set (take i ls) \<union> line_name ` set (drop i ls) = line_name ` set ls"
    by (metis append_take_drop_id image_Un set_append)
  finally show ?thesis .
qed

text \<open>
  C8. Malformed ledger tolerance: a ledger of \<open>N\<close> valid lines (records with pairwise
  different names, as the input contract has them) with one unparseable line at any
  position \<open>i\<close> is replayed without an exception; the processed set holds the names of
  the \<open>N\<close> valid lines and so has size \<open>N\<close>, the unparseable line is skipped.
\<close>

theorem malformed_ledger_tolerance:
  assumes "\<forall>l \<in> set ls. valid_line l" and "distinct (map line_name ls)"
  shows "\<exists>processed.
           load_processed_city_names (Some (take i ls @ Unparseable # drop i ls)) = Inr processed
         \<and> processed = line_name ` set ls
         \<and> card processed = length ls"
proof -
  have "card (line_name ` set ls) = length ls"
    using distinct_card [OF assms(2)] by simp
  then show ?thesis
    using add_lines_skip [OF assms(1), of i] by (simp add: load_processed_city_names_def)
qed

theorem malformed_ledger_tolerance_witness:
  "load_processed_city_names
     (Some [Parsed (JObj [(''CityNameEn'', JStr ''Oslo'')]), Unparseable,
            Parsed (JObj [(''CityNameEn'', JStr ''Lima'')])])
   = Inr {JStr ''Oslo'', JStr ''Lima''}
   \<and> card {JStr ''Oslo'', JStr ''Lima''} = (2::nat)"
  using malformed_ledger_tolerance
    [of "[Parsed (JObj [(''CityNameEn'', JStr ''Oslo'')]), Parsed (JObj [(''CityNameEn'', JStr ''Lima'')])]" 1]
  by (simp add: dict_get_def)

section \<open>The loop body by cases\<close>

lemma process_city_cases [consumes 1, case_names bad skip country_raise state_raise emitted]:
  assumes "process_city a c st = (res, st')"
  obtains
    e where "city_name c = Inl e" "res = Raised e" "st' = st"
  | city name qid where "c = JObj city" "city_name c = Inr name"
      "get_wikidata_id a name st = (qid, st')" "\<not> truthy qid" "res = Skipped"
  | city name qid st1 e where "c = JObj city" "city_name c = Inr name"
      "get_wikidata_id a name st = (qid, st1)" "truthy qid"
      "country_stage a qid (dict_get (enrich_city a qid) ''CountryQID'')
         (dict_update city (enrich_city a qid)) (emit (FetchCity qid) st1) = (Inl e, st')"
      "res = Raised e"
  | city name qid st1 city2 st3 e where "c = JObj city" "city_name c = Inr name"
      "get_wikidata_id a name st = (qid, st1)" "truthy qid"
      "country_stage a qid (dict_get (enrich_city a qid) ''CountryQID'')
         (dict_update city (enrich_city a qid)) (emit (FetchCity qid) st1) = (Inr city2, st3)"
      "state_stage a (dict_get (enrich_city a qid) ''StateQID'') city2 st3 = (Inl e, st')"
      "res = Raised e"
  | city name qid st1 city2 st3 city3 st4 where "c = JObj city" "city_name c = Inr name"
      "get_wikidata_id a name st = (qid, st1)" "truthy qid"
      "country_stage a qid (dict_get (enrich_city a qid) ''CountryQID'')
         (dict_update city (enrich_city a qid)) (emit (FetchCity qid) st1) = (Inr city2, st3)"
      "state_stage a (dict_get (enrich_city a qid) ''StateQID'') city2 st3 = (Inr city3, st4)"
      "res = Emitted city3"
      "st' = emit (Sleep 1) (st4\<lparr>disk := append_jsonl city3 (disk st4)\<rparr>)"
proof (cases "city_name c")
  case (Inl e)
  with assms that(1) show ?thesis by (simp add: process_city_def)
next
  case (Inr name)
  then obtain city where c: "c = JObj city" by (cases c) auto
  obtain qid st1 where g: "get_wikidata_id a name st = (qid, st1)" by fastforce
  show ?thesis
  proof (cases "truthy qid")
    case False
    with assms Inr c g that(2) show ?thesis by (simp add: process_city_def)
  next
    case True
    obtain r3 st3 where cs: "country_stage a qid (dict_get (enrich_city a qid) ''CountryQID'')
         (dict_update city (enrich_city a qid)) (emit (FetchCity qid) st1) = (r3, st3)" by fastforce
    show ?thesis
    proof (cases r3)
      case (Inl e)
      with assms Inr c g True cs that(3) show ?thesis by (simp add: process_city_def Let_def)
    next
      case r3: (Inr city2)
      obtain r4 st4 where ss: "state_stage a (dict_get (enrich_city a qid) ''StateQID'') city2 st3 = (r4, st4)"
        by fastforce
      show ?thesis
      proof (cases r4)
        case (Inl e)
        with assms Inr c g True cs r3 ss that(4) show ?thesis by (simp add: process_city_def Let_def)
      next
        case (Inr city3)
        with assms \<open>city_name c = Inr name\<close> c g True cs r3 ss that(5) show ?thesis
          by (simp add: process_city_def Let_def)
      qed
    qed
  qed
qed

section \<open>Caches only grow, and the trace follows them\<close>

lemma map_le_None: "m \<subseteq>\<^sub>m m' \<Longrightarrow> m' k = None \<Longrightarrow> m k = None"
  by (metis domIff map_le_def)

lemma map_le_Some: "m \<subseteq>\<^sub>m m' \<Longrightarrow> m k = Some v \<Longrightarrow> m' k = Some v"
  by (metis domI map_le_def)

lemma grows_refl: "grows a st st"
  by (auto simp: grows_def)

lemma new_entry_trans:
  assumes "m0 \<subseteq>\<^sub>m m1" "m1 \<subseteq>\<^sub>m m2"
    and "\<forall>k v. m0 k = None \<and> m1 k = Some v \<longrightarrow> P k v"
    and "\<forall>k v. m1 k = None \<and> m2 k = Some v \<longrightarrow> P k v"
    and "m0 k = None" "m2 k = Some v"
  shows "P k v"
proof (cases "m1 k")
  case None
  with assms show ?thesis by blast
next
  case (Some v1)
  with assms(2,6) have "v1 = v" by (metis map_le_Some option.inject)
  with Some assms show ?thesis by blast
qed

lemma grows_trans:
  assumes "grows a st st1" and "grows a st1 st2"
  shows "grows a st st2"
proof -
  have a: "map_of (qid_lookup st) \<subseteq>\<^sub>m map_of (qid_lookup st2)"
    using assms by (auto simp: grows_def intro: map_le_trans)
  have b: "map_of (country_cache st) \<subseteq>\<^sub>m map_of (country_cache st2)"
    using assms by (auto simp: grows_def intro: map_le_trans)
  have c: "map_of (state_cache st) \<subseteq>\<^sub>m map_of (state_cache st2)"
    using assms by (auto simp: grows_def intro: map_le_trans)
  have d: "search_try (search a k) = Some (Some q)"
    if "map_of (qid_lookup st) k = None" "map_of (qid_lookup st2) k = Some q" for k q
    using new_entry_trans [of "map_of (qid_lookup st)" "map_of (qid_lookup st1)" "map_of (qid_lookup st2)"
        "\<lambda>k q. search_try (search a k) = Some (Some q)" k q] assms that
    unfolding grows_def by blast
  have e: "v = JObj (get_entity_info a k Country)"
    if "map_of (country_cache st) k = None" "map_of (country_cache st2) k = Some v" for k v
    using new_entry_trans [of "map_of (country_cache st)" "map_of (country_cache st1)" "map_of (country_cache st2)"
        "\<lambda>k v. v = JObj (get_entity_info a k Country)" k v] assms that
    unfolding grows_def by blast
  have f: "v = JObj (get_entity_info a k State)"
    if "map_of (state_cache st) k = None" "map_of (state_cache st2) k = Some v" for k v
    using new_entry_trans [of "map_of (state_cache st)" "map_of (state_cache st1)" "map_of (state_cache st2)"
        "\<lambda>k v. v = JObj (get_entity_info a k State)" k v] assms that
    unfolding grows_def by blast
  show ?thesis
    unfolding grows_def using a b c d e f by blast
qed

lemma traced_refl: "traced st st"
  by (auto simp: traced_def)

lemma count_new_trans:
  fixes n1 n2 :: nat
  assumes "m0 \<subseteq>\<^sub>m m1" "m1 \<subseteq>\<^sub>m m2"
    and "n1 = (if m0 k = None \<and> m1 k \<noteq> None then 1 else 0)"
    and "n2 = (if m1 k = None \<and> m2 k \<noteq> None then 1 else 0)"
  shows "n1 + n2 = (if m0 k = None \<and> m2 k \<noteq> None then 1 else 0)"
  using assms map_le_None [OF assms(1), of k] map_le_None [OF assms(2), of k]
  by (cases "m0 k"; cases "m1 k"; cases "m2 k") auto

lemma traced_trans:
  assumes g1: "grows a st st1" and g2: "grows a st1 st2"
    and "traced st st1" and "traced st1 st2"
  shows "traced st st2"
proof -
  have le1: "map_of (qid_lookup st) \<subseteq>\<^sub>m map_of (qid_lookup st1)"
      "map_of (country_cache st) \<subseteq>\<^sub>m map_of (country_cache st1)"
      "map_of (state_cache st) \<subseteq>\<^sub>m map_of (state_cache st1)"
    using g1 by (simp_all add: grows_def)
  have le2: "map_of (qid_lookup st1) \<subseteq>\<^sub>m map_of (qid_lookup st2)"
      "map_of (country_cache st1) \<subseteq>\<^sub>m map_of (country_cache st2)"
      "map_of (state_cache st1) \<subseteq>\<^sub>m map_of (state_cache st2)"
    using g2 by (simp_all add: grows_def)
  from assms(3) obtain evs1 where 1:
    "trace st1 = trace st @ evs1"
    "\<forall>k. Search k \<in> set evs1 \<longrightarrow> map_of (qid_lookup st) k = None"
    "\<forall>k. map_of (qid_lookup st) k = None \<and> map_of (qid_lookup st1) k \<noteq> None \<longrightarrow> Search k \<in> set evs1"
    "\<forall>k. count_list evs1 (FetchEntity k Country) =
               (if map_of (country_cache st) k = None \<and> map_of (country_cache st1) k \<noteq> None then 1 else 0)"
    "\<forall>k. count_list evs1 (FetchEntity k State) =
               (if map_of (state_cache st) k = None \<and> map_of (state_cache st1) k \<noteq> None then 1 else 0)"
    unfolding traced_def by (elim exE conjE)
  from assms(4) obtain evs2 where 2:
    "trace st2 = trace st1 @ evs2"
    "\<forall>k. Search k \<in> set evs2 \<longrightarrow> map_of (qid_lookup st1) k = None"
    "\<forall>k. map_of (qid_lookup st1) k = None \<and> map_of (qid_lookup st2) k \<noteq> None \<longrightarrow> Search k \<in> set evs2"
    "\<forall>k. count_list evs2 (FetchEntity k Country) =
               (if map_of (country_cache st1) k = None \<and> map_of (country_cache st2) k \<noteq> None then 1 else 0)"
    "\<forall>k. count_list evs2 (FetchEntity k State) =
               (if map_of (state_cache st1) k = None \<and> map_of (state_cache st2) k \<noteq> None then 1 else 0)"
    unfolding traced_def by (elim exE conjE)
  have t: "trace st2 = trace st @ (evs1 @ evs2)"
    using 1(1) 2(1) by simp
  have g: "\<forall>k. Search k \<in> set (evs1 @ evs2) \<longrightarrow> map_of (qid_lookup st) k = None"
    using 1(2) 2(2) le1(1) by (auto dest: map_le_None)
  have h: "Search k \<in> set (evs1 @ evs2)"
    if "map_of (qid_lookup st) k = None \<and> map_of (qid_lookup st2) k \<noteq> None" for k
    using that 1(3) 2(3) by (cases "map_of (qid_lookup st1) k") auto
  have i: "count_list (evs1 @ evs2) (FetchEntity k Country) =
      (if map_of (country_cache st) k = None \<and> map_of (country_cache st2) k \<noteq> None then 1 else 0)" for k
    using count_new_trans [OF le1(2) le2(2)] 1(4) 2(4) by simp
  have j: "count_list (evs1 @ evs2) (FetchEntity k State) =
      (if map_of (state_cache st) k = None \<and> map_of (state_cache st2) k \<noteq> None then 1 else 0)" for k
    using count_new_trans [OF le1(3) le2(3)] 1(5) 2(5) by simp
  show ?thesis
    unfolding traced_def using t g h i j by blast
qed

lemma map_le_fresh: "m k = None \<Longrightarrow> m \<subseteq>\<^sub>m m(k \<mapsto> v)"
  by (auto simp: map_le_def)

lemma grows_get_wikidata_id:
  "get_wikidata_id a name st = (qid, st') \<Longrightarrow> grows a st st'"
  by (auto simp: get_wikidata_id_def grows_def emit_def save_qid_def map_of_dict_set
        map_le_fresh split: option.splits if_splits)

lemma traced_get_wikidata_id:
  "get_wikidata_id a name st = (qid, st') \<Longrightarrow> traced st st'"
  by (auto simp: get_wikidata_id_def traced_def emit_def save_qid_def map_of_dict_set
        split: option.splits if_splits)

lemma grows_emit: "grows a st (emit e st)"
  by (auto simp: grows_def emit_def)

lemma traced_emit_FetchCity: "traced st (emit (FetchCity q) st)"
  by (auto simp: traced_def emit_def)

lemma grows_country_stage:
  "country_stage a qid cqid city st = (r, st') \<Longrightarrow> grows a st st'"
  by (auto simp: country_stage_def grows_def emit_def save_countries_def map_of_dict_set
        map_le_fresh Let_def split: option.splits json.splits if_splits)

lemma traced_country_stage:
  "country_stage a qid cqid city st = (r, st') \<Longrightarrow> traced st st'"
  by (auto simp: country_stage_def traced_def emit_def save_countries_def map_of_dict_set
        Let_def split: option.splits json.splits if_splits)

lemma grows_state_stage:
  "state_stage a sqid city st = (r, st') \<Longrightarrow> grows a st st'"
  by (auto simp: state_stage_def grows_def emit_def save_states_def map_of_dict_set
        map_le_fresh Let_def split: option.splits json.splits if_splits)

lemma traced_state_stage:
  "state_stage a sqid city st = (r, st') \<Longrightarrow> traced st st'"
  by (auto simp: state_stage_def traced_def emit_def save_states_def map_of_dict_set
        Let_def split: option.splits json.splits if_splits)

lemma grows_finish: "grows a st (emit (Sleep n) (st\<lparr>disk := d\<rparr>))"
  by (auto simp: grows_def emit_def)

lemma traced_finish: "traced st (emit (Sleep n) (st\<lparr>disk := d\<rparr>))"
  by (auto simp: traced_def emit_def)

lemma advances_process_city:
  assumes "process_city a c st = (res, st')"
  shows "grows a st st' \<and> traced st st'"
  using assms
proof (cases rule: process_city_cases)
  case (bad e)
  then show ?thesis by (simp add: grows_refl traced_refl)
next
  case (skip city name qid)
  then show ?thesis by (simp add: grows_get_wikidata_id traced_get_wikidata_id)
next
  case (country_raise city name qid st1 e)
  note g = grows_get_wikidata_id [OF country_raise(3)] grows_emit [of a st1 "FetchCity qid"]
    grows_country_stage [OF country_raise(5)]
  note t = traced_get_wikidata_id [OF country_raise(3)] traced_emit_FetchCity [of st1 qid]
    traced_country_stage [OF country_raise(5)]
  have "grows a st (emit (FetchCity qid) st1)" "traced st (emit (FetchCity qid) st1)"
    using g t by (blast intro: grows_trans traced_trans)+
  then show ?thesis
    using g t by (blast intro: grows_trans traced_trans)
next
  case (state_raise city name qid st1 city2 st3 e)
  note g = grows_get_wikidata_id [OF state_raise(3)] grows_emit [of a st1 "FetchCity qid"]
    grows_country_stage [OF state_raise(5)] grows_state_stage [OF state_raise(6)]
  note t = traced_get_wikidata_id [OF state_raise(3)] traced_emit_FetchCity [of st1 qid]
    traced_country_stage [OF state_raise(5)] traced_state_stage [OF state_raise(6)]
  have 1: "grows a st (emit (FetchCity qid) st1)" "traced st (emit (FetchCity qid) st1)"
    using g t by (blast intro: grows_trans traced_trans)+
  have 2: "grows a st st3" "traced st st3"
    using 1 g t by (blast intro: grows_trans traced_trans)+
  show ?thesis
    using 2 g t by (blast intro: grows_trans traced_trans)
next
  case (emitted city name qid st1 city2 st3 city3 st4)
  note g = grows_get_wikidata_id [OF emitted(3)] grows_emit [of a st1 "FetchCity qid"]
    grows_country_stage [OF emitted(5)] grows_state_stage [OF emitted(6)]
    grows_finish [of a st4 1 "append_jsonl city3 (disk st4)"]
  note t = traced_get_wikidata_id [OF emitted(3)] traced_emit_FetchCity [of st1 qid]
    traced_country_stage [OF emitted(5)] traced_state_stage [OF emitted(6)]
    traced_finish [of st4 1 "append_jsonl city3 (disk st4)"]
  have 1: "grows a st (emit (FetchCity qid) st1)" "traced st (emit (FetchCity qid) st1)"
    using g t by (blast intro: grows_trans traced_trans)+
  have 2: "grows a st st3" "traced st st3"
    using 1 g t by (blast intro: grows_trans traced_trans)+
  have 3: "grows a st st4" "traced st st4"
    using 2 g t by (blast intro: grows_trans traced_trans)+
  show ?thesis
    unfolding emitted(8) using 3 g t by (blast intro: grows_trans traced_trans)
qed

lemma process_loop_step:
  "process_loop a (c # cs) st =
     (case process_city a c st of
        (Raised e, st') \<Rightarrow> (Some e, st')
      | (_, st') \<Rightarrow> process_loop a cs st')"
  by simp

lemma process_loop_cases [consumes 1, case_names stop continue]:
  assumes "process_loop a (c # cs) st = (err, st')"
  obtains e where "process_city a c st = (Raised e, st')" "err = Some e"
  | res st1 where "process_city a c st = (res, st1)" "\<forall>e. res \<noteq> Raised e"
      "process_loop a cs st1 = (err, st')"
proof -
  obtain res st1 where s: "process_city a c st = (res, st1)" by fastforce
  show ?thesis
  proof (cases res)
    case (Raised e)
    with assms s that(1) show ?thesis by simp
  next
    case Skipped
    with assms s that(2) show ?thesis by simp
  next
    case (Emitted r)
    with assms s that(2) show ?thesis by simp
  qed
qed

lemma advances_process_loop:
  "process_loop a cs st = (err, st') \<Longrightarrow> grows a st st' \<and> traced st st'"
proof (induction cs arbitrary: st)
  case Nil
  then show ?case by (simp add: grows_refl traced_refl)
next
  case (Cons c cs)
  from Cons.prems show ?case
  proof (cases rule: process_loop_cases)
    case (stop e)
    then show ?thesis by (simp add: advances_process_city)
  next
    case (continue res st1)
    from advances_process_city [OF continue(1)] Cons.IH [OF continue(3)]
    show ?thesis by (blast intro: grows_trans traced_trans)
  qed
qed

section \<open>Write-through: the files follow the dictionaries\<close>

lemma synced_get_wikidata_id:
  "get_wikidata_id a name st = (qid, st') \<Longrightarrow> synced st \<Longrightarrow> synced st'"
  by (auto simp: get_wikidata_id_def synced_def emit_def save_qid_def split: option.splits)

lemma synced_emit: "synced (emit e st) = synced st"
  by (simp add: synced_def emit_def)

lemma synced_country_stage:
  "country_stage a qid cqid city st = (r, st') \<Longrightarrow> synced st \<Longrightarrow> synced st'"
  by (auto simp: country_stage_def synced_def emit_def save_countries_def Let_def
        split: option.splits json.splits if_splits)

lemma synced_state_stage:
  "state_stage a sqid city st = (r, st') \<Longrightarrow> synced st \<Longrightarrow> synced st'"
  by (auto simp: state_stage_def synced_def emit_def save_states_def Let_def
        split: option.splits json.splits if_splits)

lemma synced_append: "synced (st\<lparr>disk := append_jsonl r (disk st)\<rparr>) = synced st"
  by (simp add: synced_def append_jsonl_def)

lemma synced_process_city:
  assumes "process_city a c st = (res, st')" and "synced st"
  shows "synced st'"
  using assms(1)
proof (cases rule: process_city_cases)
  case (bad e)
  then show ?thesis using assms(2) by simp
next
  case (skip city name qid)
  then show ?thesis using assms(2) by (blast intro: synced_get_wikidata_id)
next
  case (country_raise city name qid st1 e)
  have "synced (emit (FetchCity qid) st1)"
    using synced_get_wikidata_id [OF country_raise(3) assms(2)] by (simp add: synced_emit)
  then show ?thesis by (rule synced_country_stage [OF country_raise(5)])
next
  case (state_raise city name qid st1 city2 st3 e)
  have "synced (emit (FetchCity qid) st1)"
    using synced_get_wikidata_id [OF state_raise(3) assms(2)] by (simp add: synced_emit)
  then have "synced st3" by (rule synced_country_stage [OF state_raise(5)])
  then show ?thesis by (rule synced_state_stage [OF state_raise(6)])
next
  case (emitted city name qid st1 city2 st3 city3 st4)
  have "synced (emit (FetchCity qid) st1)"
    using synced_get_wikidata_id [OF emitted(3) assms(2)] by (simp add: synced_emit)
  then have "synced st3" by (rule synced_country_stage [OF emitted(5)])
  then have "synced st4" by (rule synced_state_stage [OF emitted(6)])
  then show ?thesis by (simp add: emitted(8) synced_emit synced_append)
qed

lemma synced_process_loop:
  "process_loop a cs st = (err, st') \<Longrightarrow> synced st \<Longrightarrow> synced st'"
proof (induction cs arbitrary: st)
  case Nil
  then show ?case by simp
next
  case (Cons c cs)
  from Cons.prems(1) show ?case
  proof (cases rule: process_loop_cases)
    case (stop e)
    then show ?thesis using Cons.prems(2) by (auto dest: synced_process_city)
  next
    case (continue res st1)
    then show ?thesis using Cons.prems(2) Cons.IH by (blast dest: synced_process_city)
  qed
qed

section \<open>The ledger is only appended to\<close>

lemma frame_get_wikidata_id:
  "get_wikidata_id a name st = (qid, st') \<Longrightarrow>
     output_file (disk st') = output_file (disk st) \<and> input_file (disk st') = input_file (disk st)"
  by (auto simp: get_wikidata_id_def emit_def save_qid_def split: option.splits)

lemma frame_country_stage:
  "country_stage a qid cqid city st = (r, st') \<Longrightarrow>
     output_file (disk st') = output_file (disk st) \<and> input_file (disk st') = input_file (disk st)"
  by (auto simp: country_stage_def emit_def save_countries_def Let_def
        split: option.splits json.splits if_splits)

lemma frame_state_stage:
  "state_stage a sqid city st = (r, st') \<Longrightarrow>
     output_file (disk st') = output_file (disk st) \<and> input_file (disk st') = input_file (disk st)"
  by (auto simp: state_stage_def emit_def save_states_def Let_def
        split: option.splits json.splits if_splits)

lemma ledger_process_city:
  assumes "process_city a c st = (res, st')"
  shows "ledger (disk st') = ledger (disk st) @ emitted_lines res"
    and "input_file (disk st') = input_file (disk st)"
    and "emitted_lines res = [] \<Longrightarrow> output_file (disk st') = output_file (disk st)"
  using assms
  by (cases rule: process_city_cases;
      auto simp: ledger_def emit_def append_jsonl_def
        dest!: frame_get_wikidata_id frame_country_stage frame_state_stage)+

section \<open>Runs of the small world\<close>

lemmas fixture_defs = test_api_def city_in_def fresh_files_def country_Q2_def warm_files_def
  warm_state_def testville_record_def othertown_record_def after_first_run_def
  statement_def entity_doc_def search_doc_def

lemmas run_defs = process_entries_def startup_def load_processed_city_names_def
  process_city_def get_wikidata_id_def search_try_def emit_def save_qid_def
  enrich_city_def enrich_city_try_def entity_parts_def
  label_value_def claim_id_def get_claim_def claim_coord_def claim_population_def dict_get_def
  country_stage_def state_stage_def get_entity_info_def get_entity_info_try_def save_countries_def
  save_states_def append_jsonl_def

lemma first_run:
  "process_entries test_api fresh_files =
     (None, after_first_run,
      [Search ''Testville'', FetchCity (JStr ''Q1''), FetchEntity ''Q2'' Country, Sleep 1,
       Search ''Nowhere'',
       Search ''Othertown'', FetchCity (JStr ''Q3''), FetchEntity ''Q4'' State, Sleep 1])"
  by (simp add: run_defs fixture_defs)

lemma second_run:
  "process_entries test_api after_first_run = (None, after_first_run, [Search ''Nowhere''])"
  by (simp add: run_defs fixture_defs)

lemma warm_run:
  "process_entries test_api warm_files =
     (None, after_first_run,
      [FetchCity (JStr ''Q1''), Sleep 1, Search ''Nowhere'',
       Search ''Othertown'', FetchCity (JStr ''Q3''), Sleep 1])"
  by (simp add: run_defs fixture_defs)

lemma warm_loop:
  "process_loop test_api [city_in ''Othertown''] warm_state =
     (None, \<lparr>qid_lookup = [(''Testville'', JStr ''Q1''), (''Othertown'', JStr ''Q3'')],
        country_cache = [(''Q2'', country_Q2)], state_cache = [(''Q4'', JObj [])],
        disk = warm_files\<lparr>output_file := Some [Parsed (JObj othertown_record)],
          qid_cache_file := Content [(''Testville'', JStr ''Q1''), (''Othertown'', JStr ''Q3'')]\<rparr>,
        trace = [Search ''Othertown'', FetchCity (JStr ''Q3''), Sleep 1]\<rparr>)"
  by (simp add: run_defs fixture_defs)

section \<open>The whole process\<close>

lemma process_entries_cases [consumes 1, case_names startup_error run]:
  assumes "process_entries a fs = (err, fs', tr)"
  obtains e where "startup fs = Inl e" "err = Some e" "fs' = fs" "tr = []"
  | to_process st st' where "startup fs = Inr (to_process, st)"
      "process_loop a to_process st = (err, st')" "fs' = disk st'" "tr = trace st'"
proof (cases "startup fs")
  case (Inl e)
  with assms have "err = Some e" "fs' = fs" "tr = []"
    by (simp_all add: process_entries_def)
  with Inl show ?thesis by (rule that(1))
next
  case (Inr p)
  obtain to_process st where p: "p = (to_process, st)" by fastforce
  obtain err1 st' where l: "process_loop a to_process st = (err1, st')" by fastforce
  with assms Inr p have "err1 = err" "fs' = disk st'" "tr = trace st'"
    by (simp_all add: process_entries_def)
  with Inr p l show ?thesis by (intro that(2) [of to_process st st']) simp_all
qed

lemma cache_of_load_json: "load_json f = Inr d \<Longrightarrow> cache_of f = map_of d"
  by (cases f) (auto simp: cache_of_def)

lemma cache_of_ex: "\<exists>d. map_of d = cache_of f"
  by (cases f) (auto simp: cache_of_def intro: exI [of _ "[]"])

lemma startup_Inr:
  assumes "startup fs = Inr (to_process, st)"
  shows "disk st = fs" and "trace st = []" and "synced st"
    and "\<exists>cities cs processed. load_input (input_file fs) = Inr cities \<and> py_iter cities = Inr cs
           \<and> load_processed_city_names (output_file fs) = Inr processed
           \<and> select_unprocessed cs processed = Inr to_process"
  using assms
  by (auto simp: startup_def synced_def split: sum.splits)

lemma synced_cache_of:
  assumes "synced st"
  shows "cache_of (qid_cache_file (disk st)) = map_of (qid_lookup st)"
    and "cache_of (countries_file (disk st)) = map_of (country_cache st)"
    and "cache_of (states_file (disk st)) = map_of (state_cache st)"
  using assms by (simp_all add: synced_def cache_of_load_json)

text \<open>A run of the whole process seen through the dictionaries it holds.\<close>

lemma process_entries_run:
  assumes "process_entries a fs = (err, fs', tr)"
  shows "\<exists>st st'. grows a st st' \<and> traced st st' \<and> trace st = [] \<and> trace st' = tr
           \<and> map_of (qid_lookup st) = cache_of (qid_cache_file fs)
           \<and> map_of (country_cache st) = cache_of (countries_file fs)
           \<and> map_of (state_cache st) = cache_of (states_file fs)
           \<and> map_of (qid_lookup st') = cache_of (qid_cache_file fs')
           \<and> map_of (country_cache st') = cache_of (countries_file fs')
           \<and> map_of (state_cache st') = cache_of (states_file fs')"
  using assms
proof (cases rule: process_entries_cases)
  case (startup_error e)
  obtain q c s where d: "map_of q = cache_of (qid_cache_file fs)"
      "map_of c = cache_of (countries_file fs)" "map_of s = cache_of (states_file fs)"
    using cache_of_ex by metis
  let ?st = "\<lparr>qid_lookup = q, country_cache = c, state_cache = s, disk = fs, trace = []\<rparr>"
  have "grows a ?st ?st" "traced ?st ?st" by (rule grows_refl traced_refl)+
  with d startup_error show ?thesis
    by (intro exI [of _ ?st]) simp
next
  case (run to_process st st')
  note s = startup_Inr [OF run(1)]
  have "synced st'" using synced_process_loop [OF run(2) s(3)] .
  from synced_cache_of [OF this] synced_cache_of [OF s(3)] advances_process_loop [OF run(2)] s(1,2) run(3,4)
  show ?thesis
    by (intro exI [of _ st] exI [of _ st']) simp
qed

text \<open>What "caches only grow, and the trace follows them" means for a cached key.\<close>

lemma traced_new_events:
  assumes "traced st st'"
  shows "trace st' = trace st @ new_events st st'"
    and "Search k \<in> set (new_events st st') \<Longrightarrow> map_of (qid_lookup st) k = None"
    and "map_of (qid_lookup st) k = None \<Longrightarrow> map_of (qid_lookup st') k \<noteq> None
           \<Longrightarrow> Search k \<in> set (new_events st st')"
    and "count_list (new_events st st') (FetchEntity k Country) =
           (if map_of (country_cache st) k = None \<and> map_of (country_cache st') k \<noteq> None then 1 else 0)"
    and "count_list (new_events st st') (FetchEntity k State) =
           (if map_of (state_cache st) k = None \<and> map_of (state_cache st') k \<noteq> None then 1 else 0)"
proof -
  from assms obtain evs where e: "trace st' = trace st @ evs"
    "\<forall>k. Search k \<in> set evs \<longrightarrow> map_of (qid_lookup st) k = None"
    "\<forall>k. map_of (qid_lookup st) k = None \<and> map_of (qid_lookup st') k \<noteq> None \<longrightarrow> Search k \<in> set evs"
    "\<forall>k. count_list evs (FetchEntity k Country) =
               (if map_of (country_cache st) k = None \<and> map_of (country_cache st') k \<noteq> None then 1 else 0)"
    "\<forall>k. count_list evs (FetchEntity k State) =
               (if map_of (state_cache st) k = None \<and> map_of (state_cache st') k \<noteq> None then 1 else 0)"
    unfolding traced_def by (elim exE conjE)
  have n: "new_events st st' = evs" by (simp add: new_events_def e(1))
  show "trace st' = trace st @ new_events st st'" by (simp add: n e(1))
  show "Search k \<in> set (new_events st st') \<Longrightarrow> map_of (qid_lookup st) k = None"
    using e(2) by (simp add: n)
  show "map_of (qid_lookup st) k = None \<Longrightarrow> map_of (qid_lookup st') k \<noteq> None
           \<Longrightarrow> Search k \<in> set (new_events st st')"
    using e(3) by (simp add: n)
  show "count_list (new_events st st') (FetchEntity k Country) =
           (if map_of (country_cache st) k = None \<and> map_of (country_cache st') k \<noteq> None then 1 else 0)"
    using e(4) by (simp add: n)
  show "count_list (new_events st st') (FetchEntity k State) =
           (if map_of (state_cache st) k = None \<and> map_of (state_cache st') k \<noteq> None then 1 else 0)"
    using e(5) by (simp add: n)
qed

lemma cached_key_untouched:
  assumes "grows a st st'" and "traced st st'"
  shows "map_of (qid_lookup st) k = Some v \<Longrightarrow>
           Search k \<notin> set (new_events st st') \<and> map_of (qid_lookup st') k = Some v"
    and "map_of (country_cache st) k = Some v \<Longrightarrow>
           FetchEntity k Country \<notin> set (new_events st st') \<and> map_of (country_cache st') k = Some v"
    and "map_of (state_cache st) k = Some v \<Longrightarrow>
           FetchEntity k State \<notin> set (new_events st st') \<and> map_of (state_cache st') k = Some v"
    and "count_list (new_events st st') (FetchEntity k Country) \<le> 1"
    and "count_list (new_events st st') (FetchEntity k State) \<le> 1"
proof -
  note t = traced_new_events [OF assms(2)]
  from assms(1) have le: "map_of (qid_lookup st) \<subseteq>\<^sub>m map_of (qid_lookup st')"
      "map_of (country_cache st) \<subseteq>\<^sub>m map_of (country_cache st')"
      "map_of (state_cache st) \<subseteq>\<^sub>m map_of (state_cache st')"
    by (simp_all add: grows_def)
  show "map_of (qid_lookup st) k = Some v \<Longrightarrow>
           Search k \<notin> set (new_events st st') \<and> map_of (qid_lookup st') k = Some v"
    using t(2) [of k] le(1) by (auto dest: map_le_Some)
  show "map_of (country_cache st) k = Some v \<Longrightarrow>
           FetchEntity k Country \<notin> set (new_events st st') \<and> map_of (country_cache st') k = Some v"
    using t(4) [of k] le(2) by (auto dest: map_le_Some simp: count_list_0_iff)
  show "map_of (state_cache st) k = Some v \<Longrightarrow>
           FetchEntity k State \<notin> set (new_events st st') \<and> map_of (state_cache st') k = Some v"
    using t(5) [of k] le(3) by (auto dest: map_le_Some simp: count_list_0_iff)
  show "count_list (new_events st st') (FetchEntity k Country) \<le> 1"
    using t(4) [of k] by simp
  show "count_list (new_events st st') (FetchEntity k State) \<le> 1"
    using t(5) [of k] by simp
qed

lemma new_events_whole: "trace st = [] \<Longrightarrow> new_events st st' = trace st'"
  by (simp add: new_events_def)

text \<open>
  C2. Cache immutability and fetch-once. From any state of the loop on, a key that is
  present in one of the three caches is never searched or fetched again for the rest of
  the run, and its value stays what it was. For a whole run started from the files:
  a key found in a cache file (written by an earlier run or not) is neither searched nor
  fetched, its value is in the file after the run, and the entity of a country or state
  is requested at most once however many cities refer to it.
\<close>

theorem cache_fetch_once:
  "(process_loop a cs st = (err, st') \<longrightarrow>
      (\<forall>k v. map_of (qid_lookup st) k = Some v \<longrightarrow>
         Search k \<notin> set (new_events st st') \<and> map_of (qid_lookup st') k = Some v)
    \<and> (\<forall>k v. map_of (country_cache st) k = Some v \<longrightarrow>
         FetchEntity k Country \<notin> set (new_events st st') \<and> map_of (country_cache st') k = Some v)
    \<and> (\<forall>k v. map_of (state_cache st) k = Some v \<longrightarrow>
         FetchEntity k State \<notin> set (new_events st st') \<and> map_of (state_cache st') k = Some v))
 \<and> (process_entries a fs = (err2, fs', tr) \<longrightarrow>
      (\<forall>k v. cache_of (qid_cache_file fs) k = Some v \<longrightarrow>
         Search k \<notin> set tr \<and> cache_of (qid_cache_file fs') k = Some v)
    \<and> (\<forall>k v. cache_of (countries_file fs) k = Some v \<longrightarrow>
         FetchEntity k Country \<notin> set tr \<and> cache_of (countries_file fs') k = Some v)
    \<and> (\<forall>k v. cache_of (states_file fs) k = Some v \<longrightarrow>
         FetchEntity k State \<notin> set tr \<and> cache_of (states_file fs') k = Some v)
    \<and> (\<forall>k. count_list tr (FetchEntity k Country) \<le> 1 \<and> count_list tr (FetchEntity k State) \<le> 1))"
proof (intro conjI impI)
  assume "process_loop a cs st = (err, st')"
  from advances_process_loop [OF this] have g: "grows a st st'" and t: "traced st st'" by simp_all
  show "\<forall>k v. map_of (qid_lookup st) k = Some v \<longrightarrow>
         Search k \<notin> set (new_events st st') \<and> map_of (qid_lookup st') k = Some v"
    using cached_key_untouched(1) [OF g t] by blast
  show "\<forall>k v. map_of (country_cache st) k = Some v \<longrightarrow>
         FetchEntity k Country \<notin> set (new_events st st') \<and> map_of (country_cache st') k = Some v"
    using cached_key_untouched(2) [OF g t] by blast
  show "\<forall>k v. map_of (state_cache st) k = Some v \<longrightarrow>
         FetchEntity k State \<notin> set (new_events st st') \<and> map_of (state_cache st') k = Some v"
    using cached_key_untouched(3) [OF g t] by blast
next
  assume "process_entries a fs = (err2, fs', tr)"
  from process_entries_run [OF this] obtain st0 st1 where r:
    "grows a st0 st1" "traced st0 st1" "trace st0 = []" "trace st1 = tr"
    "map_of (qid_lookup st0) = cache_of (qid_cache_file fs)"
    "map_of (country_cache st0) = cache_of (countries_file fs)"
    "map_of (state_cache st0) = cache_of (states_file fs)"
    "map_of (qid_lookup st1) = cache_of (qid_cache_file fs')"
    "map_of (country_cache st1) = cache_of (countries_file fs')"
    "map_of (state_cache st1) = cache_of (states_file fs')"
    by blast
  note n = new_events_whole [OF r(3), of st1]
  note c = cached_key_untouched [OF r(1,2)]
  show "\<forall>k v. cache_of (qid_cache_file fs) k = Some v \<longrightarrow>
         Search k \<notin> set tr \<and> cache_of (qid_cache_file fs') k = Some v"
    using c(1) unfolding n r(4-10) by blast
  show "\<forall>k v. cache_of (countries_file fs) k = Some v \<longrightarrow>
         FetchEntity k Country \<notin> set tr \<and> cache_of (countries_file fs') k = Some v"
    using c(2) unfolding n r(4-10) by blast
  show "\<forall>k v. cache_of (states_file fs) k = Some v \<longrightarrow>
         FetchEntity k State \<notin> set tr \<and> cache_of (states_file fs') k = Some v"
    using c(3) unfolding n r(4-10) by blast
  show "\<forall>k. count_list tr (FetchEntity k Country) \<le> 1 \<and> count_list tr (FetchEntity k State) \<le> 1"
    using c(4,5) unfolding n r(4-10) by blast
qed

theorem cache_fetch_once_witness:
  "map_of (country_cache warm_state) ''Q2'' = Some country_Q2
   \<and> process_loop test_api [city_in ''Othertown''] warm_state =
       (None, \<lparr>qid_lookup = [(''Testville'', JStr ''Q1''), (''Othertown'', JStr ''Q3'')],
        country_cache = [(''Q2'', country_Q2)], state_cache = [(''Q4'', JObj [])],
        disk = warm_files\<lparr>output_file := Some [Parsed (JObj othertown_record)],
          qid_cache_file := Content [(''Testville'', JStr ''Q1''), (''Othertown'', JStr ''Q3'')]\<rparr>,
        trace = [Search ''Othertown'', FetchCity (JStr ''Q3''), Sleep 1]\<rparr>)
   \<and> FetchEntity ''Q2'' Country \<notin> set [Search ''Othertown'', FetchCity (JStr ''Q3''), Sleep 1]
   \<and> cache_of (qid_cache_file warm_files) ''Testville'' = Some (JStr ''Q1'')
   \<and> cache_of (countries_file warm_files) ''Q2'' = Some country_Q2
   \<and> cache_of (states_file warm_files) ''Q4'' = Some (JObj [])
   \<and> process_entries test_api warm_files =
       (None, after_first_run,
        [FetchCity (JStr ''Q1''), Sleep 1, Search ''Nowhere'',
         Search ''Othertown'', FetchCity (JStr ''Q3''), Sleep 1])
   \<and> cache_of (countries_file after_first_run) ''Q2'' = Some country_Q2
   \<and> cache_of (states_file after_first_run) ''Q4'' = Some (JObj [])
   \<and> cache_of (qid_cache_file after_first_run) ''Testville'' = Some (JStr ''Q1'')"
  using cache_fetch_once [of test_api "[city_in ''Othertown'']" warm_state None _ warm_files None
      after_first_run "[FetchCity (JStr ''Q1''), Sleep 1, Search ''Nowhere'',
         Search ''Othertown'', FetchCity (JStr ''Q3''), Sleep 1]"]
    warm_loop warm_run
  by (simp add: cache_of_def warm_files_def warm_state_def after_first_run_def fresh_files_def)

section \<open>Failed parent fetches\<close>

lemma run_keeps_cached:
  assumes "process_entries a fs = (err, fs', tr)"
  shows "cache_of (qid_cache_file fs) k = Some v \<Longrightarrow>
           Search k \<notin> set tr \<and> cache_of (qid_cache_file fs') k = Some v"
    and "cache_of (countries_file fs) k = Some v \<Longrightarrow>
           FetchEntity k Country \<notin> set tr \<and> cache_of (countries_file fs') k = Some v"
    and "cache_of (states_file fs) k = Some v \<Longrightarrow>
           FetchEntity k State \<notin> set tr \<and> cache_of (states_file fs') k = Some v"
proof -
  from process_entries_run [OF assms] obtain st0 st1 where r:
    "grows a st0 st1" "traced st0 st1" "trace st0 = []" "trace st1 = tr"
    "map_of (qid_lookup st0) = cache_of (qid_cache_file fs)"
    "map_of (country_cache st0) = cache_of (countries_file fs)"
    "map_of (state_cache st0) = cache_of (states_file fs)"
    "map_of (qid_lookup st1) = cache_of (qid_cache_file fs')"
    "map_of (country_cache st1) = cache_of (countries_file fs')"
    "map_of (state_cache st1) = cache_of (states_file fs')"
    by blast
  note n = new_events_whole [OF r(3), of st1]
  note c = cached_key_untouched [OF r(1,2)]
  show "cache_of (qid_cache_file fs) k = Some v \<Longrightarrow>
           Search k \<notin> set tr \<and> cache_of (qid_cache_file fs') k = Some v"
    using c(1) unfolding n r(4-10) by blast
  show "cache_of (countries_file fs) k = Some v \<Longrightarrow>
           FetchEntity k Country \<notin> set tr \<and> cache_of (countries_file fs') k = Some v"
    using c(2) unfolding n r(4-10) by blast
  show "cache_of (states_file fs) k = Some v \<Longrightarrow>
           FetchEntity k State \<notin> set tr \<and> cache_of (states_file fs') k = Some v"
    using c(3) unfolding n r(4-10) by blast
qed

text \<open>What a run adds to a parent cache is what \<^verbatim>\<open>get_entity_info\<close> returned.\<close>

lemma run_fetched_value:
  assumes "process_entries a fs = (err, fs', tr)"
  shows "FetchEntity k Country \<in> set tr \<Longrightarrow>
           cache_of (countries_file fs') k = Some (JObj (get_entity_info a k Country))"
    and "FetchEntity k State \<in> set tr \<Longrightarrow>
           cache_of (states_file fs') k = Some (JObj (get_entity_info a k State))"
proof -
  from process_entries_run [OF assms] obtain st0 st1 where r:
    "grows a st0 st1" "traced st0 st1" "trace st0 = []" "trace st1 = tr"
    "map_of (country_cache st1) = cache_of (countries_file fs')"
    "map_of (state_cache st1) = cache_of (states_file fs')"
    by blast
  note n = new_events_whole [OF r(3), of st1]
  note t = traced_new_events [OF r(2)]
  from r(1) have g:
    "\<And>k v. map_of (country_cache st0) k = None \<Longrightarrow> map_of (country_cache st1) k = Some v
        \<Longrightarrow> v = JObj (get_entity_info a k Country)"
    "\<And>k v. map_of (state_cache st0) k = None \<Longrightarrow> map_of (state_cache st1) k = Some v
        \<Longrightarrow> v = JObj (get_entity_info a k State)"
    unfolding grows_def by blast+
  show "cache_of (countries_file fs') k = Some (JObj (get_entity_info a k Country))"
    if "FetchEntity k Country \<in> set tr"
  proof -
    from that have "count_list (new_events st0 st1) (FetchEntity k Country) \<noteq> 0"
      by (simp add: n r(4) count_list_0_iff)
    with t(4) [of k] have "map_of (country_cache st0) k = None" "map_of (country_cache st1) k \<noteq> None"
      by (auto split: if_splits)
    with g(1) [of k] show ?thesis unfolding r(5) by auto
  qed
  show "cache_of (states_file fs') k = Some (JObj (get_entity_info a k State))"
    if "FetchEntity k State \<in> set tr"
  proof -
    from that have "count_list (new_events st0 st1) (FetchEntity k State) \<noteq> 0"
      by (simp add: n r(4) count_list_0_iff)
    with t(5) [of k] have "map_of (state_cache st0) k = None" "map_of (state_cache st1) k \<noteq> None"
      by (auto split: if_splits)
    with g(2) [of k] show ?thesis unfolding r(6) by auto
  qed
qed

lemma get_entity_info_fail: "entity a (JStr k) = None \<Longrightarrow> get_entity_info a k lvl = []"
  by (simp add: get_entity_info_def get_entity_info_try_def entity_parts_def)

lemma enrich_city_fail: "entity a qid = None \<Longrightarrow> enrich_city a qid = []"
  by (simp add: enrich_city_def enrich_city_try_def entity_parts_def)

lemma country_stage_miss:
  assumes "country_stage a qid (JStr k) city st = (r, st')" "k \<noteq> []"
    "map_of (country_cache st) k = None"
  shows "map_of (country_cache st') k = Some (JObj (get_entity_info a k Country))"
    and "countries_file (disk st') = Content (country_cache st')"
    and "trace st' = trace st @ [FetchEntity k Country]"
  using assms
  by (auto simp: country_stage_def emit_def save_countries_def map_of_dict_set Let_def
        split: option.splits)

lemma state_stage_miss:
  assumes "state_stage a (JStr k) city st = (r, st')" "k \<noteq> []"
    "map_of (state_cache st) k = None"
  shows "map_of (state_cache st') k = Some (JObj (get_entity_info a k State))"
    and "states_file (disk st') = Content (state_cache st')"
    and "trace st' = trace st @ [FetchEntity k State]"
  using assms
  by (auto simp: state_stage_def emit_def save_states_def map_of_dict_set Let_def
        split: option.splits)

text \<open>
  C10. Failed parent fetches are cached for good. When the entity request for a country
  or state \<open>k\<close> fails, the parent stage stores the empty record under \<open>k\<close> and the cache
  file holds it at once. After a run that issued the request, the cache file maps \<open>k\<close>
  to the empty record, and no later run, whatever the external source then answers,
  requests \<open>k\<close> again or changes the entry.
\<close>

theorem failed_parent_fetch_cached:
  assumes "entity a (JStr k) = None"
  shows "(country_stage a qid (JStr k) city st = (r, st') \<and> k \<noteq> [] \<and> map_of (country_cache st) k = None
            \<longrightarrow> map_of (country_cache st') k = Some (JObj [])
              \<and> countries_file (disk st') = Content (country_cache st'))
       \<and> (state_stage a (JStr k) city st = (r, st') \<and> k \<noteq> [] \<and> map_of (state_cache st) k = None
            \<longrightarrow> map_of (state_cache st') k = Some (JObj [])
              \<and> states_file (disk st') = Content (state_cache st'))
       \<and> (process_entries a fs = (err, fs', tr) \<and> FetchEntity k Country \<in> set tr
            \<longrightarrow> cache_of (countries_file fs') k = Some (JObj [])
              \<and> (\<forall>a2 err2 fs2 tr2. process_entries a2 fs' = (err2, fs2, tr2)
                    \<longrightarrow> FetchEntity k Country \<notin> set tr2
                      \<and> cache_of (countries_file fs2) k = Some (JObj [])))
       \<and> (process_entries a fs = (err, fs', tr) \<and> FetchEntity k State \<in> set tr
            \<longrightarrow> cache_of (states_file fs') k = Some (JObj [])
              \<and> (\<forall>a2 err2 fs2 tr2. process_entries a2 fs' = (err2, fs2, tr2)
                    \<longrightarrow> FetchEntity k State \<notin> set tr2
                      \<and> cache_of (states_file fs2) k = Some (JObj [])))"
proof (intro conjI impI; (elim conjE)?)
  assume "country_stage a qid (JStr k) city st = (r, st')" "k \<noteq> []" "map_of (country_cache st) k = None"
  from country_stage_miss(1,2) [OF this]
  show "map_of (country_cache st') k = Some (JObj [])"
    and "countries_file (disk st') = Content (country_cache st')"
    by (simp_all add: get_entity_info_fail [OF assms])
next
  assume "state_stage a (JStr k) city st = (r, st')" "k \<noteq> []" "map_of (state_cache st) k = None"
  from state_stage_miss(1,2) [OF this]
  show "map_of (state_cache st') k = Some (JObj [])"
    and "states_file (disk st') = Content (state_cache st')"
    by (simp_all add: get_entity_info_fail [OF assms])
next
  assume run: "process_entries a fs = (err, fs', tr)" and f: "FetchEntity k Country \<in> set tr"
  from run_fetched_value(1) [OF run f]
  show c: "cache_of (countries_file fs') k = Some (JObj [])"
    by (simp add: get_entity_info_fail [OF assms])
  show "\<forall>a2 err2 fs2 tr2. process_entries a2 fs' = (err2, fs2, tr2)
          \<longrightarrow> FetchEntity k Country \<notin> set tr2 \<and> cache_of (countries_file fs2) k = Some (JObj [])"
    using run_keeps_cached(2) [OF _ c] by blast
next
  assume run: "process_entries a fs = (err, fs', tr)" and f: "FetchEntity k State \<in> set tr"
  from run_fetched_value(2) [OF run f]
  show c: "cache_of (states_file fs') k = Some (JObj [])"
    by (simp add: get_entity_info_fail [OF assms])
  show "\<forall>a2 err2 fs2 tr2. process_entries a2 fs' = (err2, fs2, tr2)
          \<longrightarrow> FetchEntity k State \<notin> set tr2 \<and> cache_of (states_file fs2) k = Some (JObj [])"
    using run_keeps_cached(3) [OF _ c] by blast
qed

lemmas down_defs = down_api_def single_file_def cold_state_def after_down_run_def

lemma down_run:
  "process_entries down_api single_file =
     (None, after_down_run,
      [Search ''Testville'', FetchCity (JStr ''Q1''), FetchEntity ''Q2'' Country, Sleep 1])"
  by (simp add: run_defs fixture_defs down_defs)

lemma down_rerun:
  "process_entries test_api after_down_run = (None, after_down_run, [])"
  by (simp add: run_defs fixture_defs down_defs)

lemma down_country_stage:
  "country_stage down_api (JStr ''Q1'') (JStr ''Q2'') [] cold_state =
     (Inr [(''CountryDetails'', JObj []), (''IsCapital'', JBool False)],
      cold_state\<lparr>country_cache := [(''Q2'', JObj [])],
        disk := single_file\<lparr>countries_file := Content [(''Q2'', JObj [])]\<rparr>,
        trace := [FetchEntity ''Q2'' Country]\<rparr>)"
  by (simp add: run_defs fixture_defs down_defs)

lemma down_state_stage:
  "state_stage test_api (JStr ''Q4'') [] cold_state =
     (Inr [(''StateDetails'', JObj [])],
      cold_state\<lparr>state_cache := [(''Q4'', JObj [])],
        disk := single_file\<lparr>states_file := Content [(''Q4'', JObj [])]\<rparr>,
        trace := [FetchEntity ''Q4'' State]\<rparr>)"
  by (simp add: run_defs fixture_defs down_defs)

theorem failed_parent_fetch_cached_witness:
  "entity down_api (JStr ''Q2'') = None \<and> entity test_api (JStr ''Q4'') = None
   \<and> map_of (country_cache cold_state) ''Q2'' = None \<and> map_of (state_cache cold_state) ''Q4'' = None
   \<and> map_of (country_cache (snd (country_stage down_api (JStr ''Q1'') (JStr ''Q2'') [] cold_state))) ''Q2''
        = Some (JObj [])
   \<and> countries_file (disk (snd (country_stage down_api (JStr ''Q1'') (JStr ''Q2'') [] cold_state)))
        = Content [(''Q2'', JObj [])]
   \<and> map_of (state_cache (snd (state_stage test_api (JStr ''Q4'') [] cold_state))) ''Q4'' = Some (JObj [])
   \<and> states_file (disk (snd (state_stage test_api (JStr ''Q4'') [] cold_state)))
        = Content [(''Q4'', JObj [])]
   \<and> FetchEntity ''Q2'' Country \<in> set (snd (snd (process_entries down_api single_file)))
   \<and> cache_of (countries_file after_down_run) ''Q2'' = Some (JObj [])
   \<and> FetchEntity ''Q2'' Country \<notin> set (snd (snd (process_entries test_api after_down_run)))
   \<and> FetchEntity ''Q4'' State \<in> set (snd (snd (process_entries test_api fresh_files)))
   \<and> cache_of (states_file after_first_run) ''Q4'' = Some (JObj [])
   \<and> FetchEntity ''Q4'' State \<notin> set (snd (snd (process_entries test_api after_first_run)))"
proof -
  have q2: "entity down_api (JStr ''Q2'') = None" by (simp add: down_api_def)
  have q4: "entity test_api (JStr ''Q4'') = None" by (simp add: test_api_def)
  note c = failed_parent_fetch_cached [OF q2, of "JStr ''Q1''" "[]" cold_state _ _ single_file None
      after_down_run "[Search ''Testville'', FetchCity (JStr ''Q1''), FetchEntity ''Q2'' Country, Sleep 1]"]
  note s = failed_parent_fetch_cached [OF q4, of _ "[]" cold_state _ _ fresh_files None after_first_run
      "[Search ''Testville'', FetchCity (JStr ''Q1''), FetchEntity ''Q2'' Country, Sleep 1,
        Search ''Nowhere'',
        Search ''Othertown'', FetchCity (JStr ''Q3''), FetchEntity ''Q4'' State, Sleep 1]"]
  show ?thesis
    using q2 q4 c s down_run down_rerun first_run second_run down_country_stage down_state_stage
    by (simp add: cold_state_def)
qed

section \<open>What an emitted record holds\<close>

lemma enrich_city_keys: "fst ` set (enrich_city a qid) \<subseteq> set pipeline_keys"
  by (auto simp: enrich_city_def enrich_city_try_def pipeline_keys_def
        split: option.splits Option.bind_splits prod.splits)

lemma country_stage_fields:
  assumes "country_stage a qid cqid city st = (Inr city2, st')"
  shows "k \<noteq> ''CountryDetails'' \<Longrightarrow> k \<noteq> ''IsCapital'' \<Longrightarrow> map_of city2 k = map_of city k"
  using assms
  by (auto simp: country_stage_def map_of_dict_set Let_def
        split: option.splits json.splits if_splits)

lemma state_stage_fields:
  assumes "state_stage a sqid city st = (Inr city3, st')"
  shows "k \<noteq> ''StateDetails'' \<Longrightarrow> map_of city3 k = map_of city k"
  using assms
  by (auto simp: state_stage_def map_of_dict_set Let_def
        split: option.splits json.splits if_splits)

lemma country_stage_capital:
  assumes "country_stage a qid cqid city st = (Inr city2, st')" and "truthy qid"
  shows "map_of city2 ''IsCapital'' = Some (JBool (is_capital qid cqid (map_of (country_cache st'))))"
    and "truthy cqid \<Longrightarrow> \<exists>k v. cqid = JStr k \<and> map_of (country_cache st') k = Some v"
  using assms
  by (auto simp: country_stage_def map_of_dict_set Let_def is_capital_def emit_def save_countries_def
        split: option.splits json.splits if_splits elim!: py_get.elims)

lemma get_wikidata_id_cached:
  "get_wikidata_id a name st = (qid, st') \<Longrightarrow> truthy qid \<Longrightarrow> map_of (qid_lookup st') name = Some qid"
  by (auto simp: get_wikidata_id_def emit_def save_qid_def map_of_dict_set split: option.splits)

lemma city_name_Inr: "city_name c = Inr name \<Longrightarrow> \<exists>city. c = JObj city \<and> map_of city ''CityNameEn'' = Some (JStr name)"
  by (cases c) (auto split: option.splits json.splits)

lemma process_city_emitted_fields:
  assumes "process_city a c st = (Emitted r, st')"
  shows "\<exists>city. c = JObj city \<and> (\<forall>k. k \<notin> set pipeline_keys \<longrightarrow> map_of r k = map_of city k)"
  using assms
proof (cases rule: process_city_cases)
  case (emitted city name qid st1 city2 st3 city3 st4)
  have "map_of r k = map_of city k" if "k \<notin> set pipeline_keys" for k
  proof -
    from that have k: "k \<noteq> ''StateDetails''" "k \<noteq> ''CountryDetails''" "k \<noteq> ''IsCapital''"
      by (auto simp: pipeline_keys_def)
    from that enrich_city_keys [of a qid] have "k \<notin> fst ` set (enrich_city a qid)" by blast
    then have "map_of (dict_update city (enrich_city a qid)) k = map_of city k"
      by (rule map_of_dict_update_other)
    with country_stage_fields [OF emitted(5) k(2,3)] state_stage_fields [OF emitted(6) k(1)] emitted(7)
    show ?thesis by simp
  qed
  with emitted(1) show ?thesis by blast
qed simp_all

lemma grows_country_Some:
  "grows a st st' \<Longrightarrow> map_of (country_cache st) k = Some v \<Longrightarrow> map_of (country_cache st') k = Some v"
  by (auto simp: grows_def dest: map_le_Some)

lemma grows_qid_Some:
  "grows a st st' \<Longrightarrow> map_of (qid_lookup st) k = Some v \<Longrightarrow> map_of (qid_lookup st') k = Some v"
  by (auto simp: grows_def dest: map_le_Some)

lemma is_capital_cong:
  assumes "truthy cqid \<Longrightarrow> \<exists>k v. cqid = JStr k \<and> m k = Some v \<and> m' k = Some v"
  shows "is_capital qid cqid m = is_capital qid cqid m'"
  using assms by (cases "truthy cqid") (auto simp: is_capital_def)

lemma process_city_emitted_capital:
  assumes "process_city a c st = (Emitted r, st')"
  shows "\<exists>name qid. city_name c = Inr name \<and> map_of (qid_lookup st') name = Some qid \<and> truthy qid
           \<and> map_of r ''CityNameEn'' = Some (JStr name)
           \<and> map_of r ''IsCapital'' =
               Some (JBool (is_capital qid (dict_get (enrich_city a qid) ''CountryQID'')
                       (map_of (country_cache st'))))
           \<and> (truthy (dict_get (enrich_city a qid) ''CountryQID'') \<longrightarrow>
                (\<exists>k v. dict_get (enrich_city a qid) ''CountryQID'' = JStr k
                   \<and> map_of (country_cache st') k = Some v))"
  using assms
proof (cases rule: process_city_cases)
  case (emitted city name qid st1 city2 st3 city3 st4)
  let ?cqid = "dict_get (enrich_city a qid) ''CountryQID''"
  have g34: "grows a st3 st'"
    unfolding emitted(8)
    using grows_state_stage [OF emitted(6)] grows_finish [of a st4 1 "append_jsonl city3 (disk st4)"]
    by (rule grows_trans)
  have g1: "grows a st1 st'"
    using grows_emit [of a st1 "FetchCity qid"] grows_country_stage [OF emitted(5)] g34
    by (blast intro: grows_trans)
  have q: "map_of (qid_lookup st') name = Some qid"
    using grows_qid_Some [OF g1 get_wikidata_id_cached [OF emitted(3,4)]] .
  from process_city_emitted_fields [OF assms] emitted(1) city_name_Inr [OF emitted(2)]
  have n: "map_of r ''CityNameEn'' = Some (JStr name)"
    by (auto simp: pipeline_keys_def)
  note cc = country_stage_capital [OF emitted(5,4)]
  have key: "\<exists>k v. ?cqid = JStr k \<and> map_of (country_cache st3) k = Some v
               \<and> map_of (country_cache st') k = Some v" if "truthy ?cqid"
    using cc(2) [OF that] grows_country_Some [OF g34] by blast
  have "map_of r ''IsCapital'' = map_of city2 ''IsCapital''"
    using state_stage_fields [OF emitted(6), of "''IsCapital''"] emitted(7) by simp
  also have "\<dots> = Some (JBool (is_capital qid ?cqid (map_of (country_cache st3))))"
    by (rule cc(1))
  also have "is_capital qid ?cqid (map_of (country_cache st3)) = is_capital qid ?cqid (map_of (country_cache st'))"
    by (rule is_capital_cong) (use key in blast)
  finally have i: "map_of r ''IsCapital'' = Some (JBool (is_capital qid ?cqid (map_of (country_cache st'))))" .
  from emitted(2,4) q n i key show ?thesis by blast
qed simp_all

lemma name_of_Inr: "city_name c = Inr n \<Longrightarrow> name_of c = n"
  by (simp add: name_of_def)

lemma select_unprocessed_Inr:
  "select_unprocessed cs P = Inr tp \<Longrightarrow>
     tp = filter (\<lambda>c. JStr (name_of c) \<notin> P) cs \<and> (\<forall>c \<in> set cs. city_name c = Inr (name_of c))"
proof (induction cs arbitrary: tp)
  case Nil
  then show ?case by simp
next
  case (Cons c cs)
  from Cons.prems obtain n rest where
    s: "city_name c = Inr n" "select_unprocessed cs P = Inr rest"
       "tp = (if JStr n \<notin> P then c # rest else rest)"
    by (auto split: sum.splits)
  from Cons.IH [OF s(2)] s(1,3) name_of_Inr [OF s(1)] show ?case by auto
qed

lemma startup_to_process:
  assumes "startup fs = Inr (to_process, st)"
  shows "\<exists>processed. load_processed_city_names (output_file fs) = Inr processed
           \<and> to_process = filter (\<lambda>c. JStr (name_of c) \<notin> processed) (input_records fs)
           \<and> (\<forall>c \<in> set (input_records fs). city_name c = Inr (name_of c))"
proof -
  from startup_Inr(4) [OF assms] obtain cities cs processed where
    s: "load_input (input_file fs) = Inr cities" "py_iter cities = Inr cs"
       "load_processed_city_names (output_file fs) = Inr processed"
       "select_unprocessed cs processed = Inr to_process"
    by blast
  then have "input_records fs = cs" by (simp add: input_records_def)
  with s(3) select_unprocessed_Inr [OF s(4)] show ?thesis by blast
qed

lemma process_loop_emitted:
  "process_loop a cs st = (err, st') \<Longrightarrow>
     \<exists>new. ledger (disk st') = ledger (disk st) @ new
       \<and> (\<forall>l \<in> set new. \<exists>c \<in> set cs. \<exists>r s0 s1. l = Parsed (JObj r)
              \<and> process_city a c s0 = (Emitted r, s1) \<and> grows a s1 st')"
proof (induction cs arbitrary: st)
  case Nil
  then show ?case by simp
next
  case (Cons c cs)
  from Cons.prems show ?case
  proof (cases rule: process_loop_cases)
    case (stop e)
    from ledger_process_city(1) [OF stop(1)] show ?thesis by simp
  next
    case (continue res st1)
    from Cons.IH [OF continue(3)] obtain new where
      n: "ledger (disk st') = ledger (disk st1) @ new"
         "\<forall>l \<in> set new. \<exists>c \<in> set cs. \<exists>r s0 s1. l = Parsed (JObj r)
              \<and> process_city a c s0 = (Emitted r, s1) \<and> grows a s1 st'"
      by blast
    have g: "grows a st1 st'" using advances_process_loop [OF continue(3)] by simp
    have l: "ledger (disk st') = ledger (disk st) @ (emitted_lines res @ new)"
      using ledger_process_city(1) [OF continue(1)] n(1) by simp
    have "\<exists>c' \<in> set (c # cs). \<exists>r s0 s1. l = Parsed (JObj r)
              \<and> process_city a c' s0 = (Emitted r, s1) \<and> grows a s1 st'"
      if "l \<in> set (emitted_lines res @ new)" for l
    proof (cases "l \<in> set new")
      case True
      with n(2) show ?thesis by auto
    next
      case False
      with that have "l \<in> set (emitted_lines res)" by simp
      then obtain r where "res = Emitted r" "l = Parsed (JObj r)"
        by (cases res) auto
      with continue(1) g show ?thesis by auto
    qed
    with l show ?thesis by blast
  qed
qed

lemma process_entries_emitted:
  assumes "process_entries a fs = (err, fs', tr)"
  shows "\<exists>new. ledger fs' = ledger fs @ new
       \<and> (\<forall>l \<in> set new. \<exists>c \<in> set (input_records fs). \<exists>r s0 s1. l = Parsed (JObj r)
              \<and> process_city a c s0 = (Emitted r, s1)
              \<and> map_of (qid_lookup s1) \<subseteq>\<^sub>m cache_of (qid_cache_file fs')
              \<and> map_of (country_cache s1) \<subseteq>\<^sub>m cache_of (countries_file fs'))"
  using assms
proof (cases rule: process_entries_cases)
  case (startup_error e)
  then show ?thesis by simp
next
  case (run to_process st st')
  note s = startup_Inr [OF run(1)]
  from startup_to_process [OF run(1)] have sub: "set to_process \<subseteq> set (input_records fs)" by auto
  have sy: "synced st'" using synced_process_loop [OF run(2) s(3)] .
  from process_loop_emitted [OF run(2)] obtain new where
    n: "ledger (disk st') = ledger (disk st) @ new"
       "\<forall>l \<in> set new. \<exists>c \<in> set to_process. \<exists>r s0 s1. l = Parsed (JObj r)
              \<and> process_city a c s0 = (Emitted r, s1) \<and> grows a s1 st'"
    by blast
  have "\<exists>c \<in> set (input_records fs). \<exists>r s0 s1. l = Parsed (JObj r)
              \<and> process_city a c s0 = (Emitted r, s1)
              \<and> map_of (qid_lookup s1) \<subseteq>\<^sub>m cache_of (qid_cache_file fs')
              \<and> map_of (country_cache s1) \<subseteq>\<^sub>m cache_of (countries_file fs')" if "l \<in> set new" for l
  proof -
    from n(2) that obtain c r s0 s1 where c: "c \<in> set to_process" "l = Parsed (JObj r)"
      "process_city a c s0 = (Emitted r, s1)" "grows a s1 st'" by blast
    from c(4) have "map_of (qid_lookup s1) \<subseteq>\<^sub>m map_of (qid_lookup st')"
      "map_of (country_cache s1) \<subseteq>\<^sub>m map_of (country_cache st')"
      by (simp_all add: grows_def)
    with synced_cache_of [OF sy] run(3) c(1,2,3) sub show ?thesis by auto
  qed
  with n(1) s(1) run(3) show ?thesis by auto
qed

text \<open>
  C7 (as amended). Caller-field pass-through: every record a run appends to the ledger
  comes from a record of the input, and every field of that input record whose key is
  not one of the ten keys the pipeline writes (\<open>pipeline_keys\<close>) is in the output record
  under the same key with the same value; a key the input record does not have, and the
  pipeline does not write, is not in the output record either.
\<close>

theorem caller_fields_pass_through:
  assumes "process_entries a fs = (err, fs', tr)"
  shows "\<exists>new. ledger fs' = ledger fs @ new
       \<and> (\<forall>l \<in> set new. \<exists>city r. JObj city \<in> set (input_records fs) \<and> l = Parsed (JObj r)
              \<and> (\<forall>k. k \<notin> set pipeline_keys \<longrightarrow> map_of r k = map_of city k))"
proof -
  from process_entries_emitted [OF assms] obtain new where
    n: "ledger fs' = ledger fs @ new"
       "\<forall>l \<in> set new. \<exists>c \<in> set (input_records fs). \<exists>r s0 s1. l = Parsed (JObj r)
              \<and> process_city a c s0 = (Emitted r, s1)
              \<and> map_of (qid_lookup s1) \<subseteq>\<^sub>m cache_of (qid_cache_file fs')
              \<and> map_of (country_cache s1) \<subseteq>\<^sub>m cache_of (countries_file fs')"
    by blast
  have "\<exists>city r. JObj city \<in> set (input_records fs) \<and> l = Parsed (JObj r)
              \<and> (\<forall>k. k \<notin> set pipeline_keys \<longrightarrow> map_of r k = map_of city k)" if "l \<in> set new" for l
  proof -
    from n(2) that obtain c r s0 s1 where c: "c \<in> set (input_records fs)" "l = Parsed (JObj r)"
      "process_city a c s0 = (Emitted r, s1)" by blast
    from process_city_emitted_fields [OF c(3)] c(1,2) show ?thesis by blast
  qed
  with n(1) show ?thesis by blast
qed

lemma is_capital_false:
  "\<not> truthy cqid \<Longrightarrow> \<not> is_capital qid cqid countries"
  "countries k = None \<Longrightarrow> \<not> is_capital qid (JStr k) countries"
  "countries k = Some (JObj info) \<Longrightarrow> map_of info ''CapitalQID'' = None
     \<Longrightarrow> \<not> is_capital qid (JStr k) countries"
  by (simp_all add: is_capital_def)

text \<open>
  C7 as stated fails for a caller field named like a fetched field: the input record of
  Testville carries \<^verbatim>\<open>"Population": 5\<close>, \<^verbatim>\<open>city.update(city_info)\<close> overwrites it, and
  the emitted record holds \<^verbatim>\<open>"Population": null\<close>.
\<close>

theorem caller_field_overwritten:
  "city_in ''Testville'' =
     JObj [(''CityNameEn'', JStr ''Testville''), (''Population'', JInt 5), (''Note'', JStr ''kept'')]
   \<and> fst (process_city test_api (city_in ''Testville'') cold_state) = Emitted testville_record
   \<and> map_of testville_record ''Population'' = Some JNull"
  by (simp add: run_defs fixture_defs down_defs)

theorem caller_fields_pass_through_witness:
  "process_entries test_api fresh_files =
     (None, after_first_run,
      [Search ''Testville'', FetchCity (JStr ''Q1''), FetchEntity ''Q2'' Country, Sleep 1,
       Search ''Nowhere'',
       Search ''Othertown'', FetchCity (JStr ''Q3''), FetchEntity ''Q4'' State, Sleep 1])
   \<and> ledger after_first_run
       = ledger fresh_files @ [Parsed (JObj testville_record), Parsed (JObj othertown_record)]
   \<and> city_in ''Testville'' \<in> set (input_records fresh_files)
   \<and> city_in ''Othertown'' \<in> set (input_records fresh_files)
   \<and> ''Note'' \<notin> set pipeline_keys \<and> ''CityNameEn'' \<notin> set pipeline_keys
   \<and> map_of testville_record ''Note'' = Some (JStr ''kept'')
   \<and> map_of othertown_record ''Note'' = Some (JStr ''kept'')
   \<and> map_of testville_record ''CityNameEn'' = Some (JStr ''Testville'')
   \<and> map_of othertown_record ''CityNameEn'' = Some (JStr ''Othertown'')"
proof -
  have 1: "ledger after_first_run
       = ledger fresh_files @ [Parsed (JObj testville_record), Parsed (JObj othertown_record)]"
    by (simp add: ledger_def after_first_run_def fresh_files_def)
  have 2: "city_in ''Testville'' \<in> set (input_records fresh_files)"
      "city_in ''Othertown'' \<in> set (input_records fresh_files)"
    by (simp_all add: input_records_def fresh_files_def)
  have 3: "''Note'' \<notin> set pipeline_keys" "''CityNameEn'' \<notin> set pipeline_keys"
    by (simp_all add: pipeline_keys_def)
  have 4: "map_of testville_record ''Note'' = Some (JStr ''kept'')"
      "map_of othertown_record ''Note'' = Some (JStr ''kept'')"
      "map_of testville_record ''CityNameEn'' = Some (JStr ''Testville'')"
      "map_of othertown_record ''CityNameEn'' = Some (JStr ''Othertown'')"
    by (simp_all add: testville_record_def othertown_record_def)
  from caller_fields_pass_through [OF first_run] first_run 1 2 3 4 show ?thesis
    by blast
qed

text \<open>
  C3. Capital correctness: every record a run appends to the ledger has its name, the
  name is resolved in the identifier cache to the city's own identifier \<open>qid\<close>, and the
  record holds \<^verbatim>\<open>IsCapital\<close> with a boolean that is true iff \<open>is_capital\<close> holds: a
  country identifier was extracted for the city, the country cache has its record, and
  that record's \<^verbatim>\<open>CapitalQID\<close> equals \<open>qid\<close>. So it is false when no country identifier
  was extracted, when the country record is empty, and when it records no capital
  (\<open>is_capital_false\<close>).
\<close>

theorem capital_correctness:
  assumes "process_entries a fs = (err, fs', tr)"
  shows "\<exists>new. ledger fs' = ledger fs @ new
       \<and> (\<forall>l \<in> set new. \<exists>r name qid b. l = Parsed (JObj r)
              \<and> map_of r ''CityNameEn'' = Some (JStr name)
              \<and> cache_of (qid_cache_file fs') name = Some qid
              \<and> map_of r ''IsCapital'' = Some (JBool b)
              \<and> (b \<longleftrightarrow> is_capital qid (dict_get (enrich_city a qid) ''CountryQID'')
                          (cache_of (countries_file fs'))))"
proof -
  from process_entries_emitted [OF assms] obtain new where
    n: "ledger fs' = ledger fs @ new"
       "\<forall>l \<in> set new. \<exists>c \<in> set (input_records fs). \<exists>r s0 s1. l = Parsed (JObj r)
              \<and> process_city a c s0 = (Emitted r, s1)
              \<and> map_of (qid_lookup s1) \<subseteq>\<^sub>m cache_of (qid_cache_file fs')
              \<and> map_of (country_cache s1) \<subseteq>\<^sub>m cache_of (countries_file fs')"
    by blast
  have "\<exists>r name qid b. l = Parsed (JObj r)
              \<and> map_of r ''CityNameEn'' = Some (JStr name)
              \<and> cache_of (qid_cache_file fs') name = Some qid
              \<and> map_of r ''IsCapital'' = Some (JBool b)
              \<and> (b \<longleftrightarrow> is_capital qid (dict_get (enrich_city a qid) ''CountryQID'')
                          (cache_of (countries_file fs')))" if "l \<in> set new" for l
  proof -
    from n(2) that obtain c r s0 s1 where c: "l = Parsed (JObj r)"
      "process_city a c s0 = (Emitted r, s1)"
      "map_of (qid_lookup s1) \<subseteq>\<^sub>m cache_of (qid_cache_file fs')"
      "map_of (country_cache s1) \<subseteq>\<^sub>m cache_of (countries_file fs')" by blast
    from process_city_emitted_capital [OF c(2)] obtain name qid where
      e: "map_of (qid_lookup s1) name = Some qid"
         "map_of r ''CityNameEn'' = Some (JStr name)"
         "map_of r ''IsCapital'' =
            Some (JBool (is_capital qid (dict_get (enrich_city a qid) ''CountryQID'')
                    (map_of (country_cache s1))))"
         "truthy (dict_get (enrich_city a qid) ''CountryQID'') \<longrightarrow>
            (\<exists>k v. dict_get (enrich_city a qid) ''CountryQID'' = JStr k
               \<and> map_of (country_cache s1) k = Some v)"
      by blast
    have "is_capital qid (dict_get (enrich_city a qid) ''CountryQID'') (map_of (country_cache s1))
        = is_capital qid (dict_get (enrich_city a qid) ''CountryQID'') (cache_of (countries_file fs'))"
      by (rule is_capital_cong) (use e(4) c(4) in \<open>blast dest: map_le_Some\<close>)
    with c(1) e(2,3) map_le_Some [OF c(3) e(1)] show ?thesis by auto
  qed
  with n(1) show ?thesis by blast
qed

theorem capital_correctness_witness:
  "process_entries test_api fresh_files =
     (None, after_first_run,
      [Search ''Testville'', FetchCity (JStr ''Q1''), FetchEntity ''Q2'' Country, Sleep 1,
       Search ''Nowhere'',
       Search ''Othertown'', FetchCity (JStr ''Q3''), FetchEntity ''Q4'' State, Sleep 1])
   \<and> ledger after_first_run
       = ledger fresh_files @ [Parsed (JObj testville_record), Parsed (JObj othertown_record)]
   \<and> cache_of (qid_cache_file after_first_run) ''Testville'' = Some (JStr ''Q1'')
   \<and> dict_get (enrich_city test_api (JStr ''Q1'')) ''CountryQID'' = JStr ''Q2''
   \<and> is_capital (JStr ''Q1'') (JStr ''Q2'') (cache_of (countries_file after_first_run))
   \<and> map_of testville_record ''IsCapital'' = Some (JBool True)
   \<and> cache_of (qid_cache_file after_first_run) ''Othertown'' = Some (JStr ''Q3'')
   \<and> dict_get (enrich_city test_api (JStr ''Q3'')) ''CountryQID'' = JStr ''Q2''
   \<and> \<not> is_capital (JStr ''Q3'') (JStr ''Q2'') (cache_of (countries_file after_first_run))
   \<and> map_of othertown_record ''IsCapital'' = Some (JBool False)"
proof -
  have 1: "ledger after_first_run
       = ledger fresh_files @ [Parsed (JObj testville_record), Parsed (JObj othertown_record)]"
    by (simp add: ledger_def after_first_run_def fresh_files_def)
  have 2: "cache_of (qid_cache_file after_first_run) ''Testville'' = Some (JStr ''Q1'')"
      "cache_of (qid_cache_file after_first_run) ''Othertown'' = Some (JStr ''Q3'')"
    by (simp_all add: cache_of_def after_first_run_def fresh_files_def)
  have 3: "dict_get (enrich_city test_api (JStr ''Q1'')) ''CountryQID'' = JStr ''Q2''"
      "dict_get (enrich_city test_api (JStr ''Q3'')) ''CountryQID'' = JStr ''Q2''"
    by (simp_all add: run_defs fixture_defs)
  have 4: "is_capital (JStr ''Q1'') (JStr ''Q2'') (cache_of (countries_file after_first_run))"
      "\<not> is_capital (JStr ''Q3'') (JStr ''Q2'') (cache_of (countries_file after_first_run))"
    by (simp_all add: is_capital_def cache_of_def after_first_run_def fresh_files_def country_Q2_def)
  have 5: "map_of testville_record ''IsCapital'' = Some (JBool True)"
      "map_of othertown_record ''IsCapital'' = Some (JBool False)"
    by (simp_all add: testville_record_def othertown_record_def)
  from capital_correctness [OF first_run] first_run 1 2 3 4 5 show ?thesis
    by blast
qed

lemma skipped_without_sleep:
  assumes "process_city a c st = (Skipped, st')"
  shows "trace st' = trace st \<or> (\<exists>name. trace st' = trace st @ [Search name])"
  using assms
  by (cases rule: process_city_cases)
     (auto simp: get_wikidata_id_def emit_def save_qid_def split: option.splits)

text \<open>
  C5. Pacing delay after every terminal state. The code sleeps only after an emitted
  record: \<^verbatim>\<open>continue\<close> after a failed resolution skips \<^verbatim>\<open>time.sleep(1)\<close>. With two
  names that do not resolve, the two search requests follow each other with no delay
  between them or after them.
\<close>

theorem no_pacing_after_skip:
  "process_entries test_api two_misses = (None, two_misses, [Search ''Nowhere'', Search ''Elsewhere''])"
  by (simp add: run_defs fixture_defs two_misses_def)

section \<open>Resolution failures\<close>

lemma search_fails_transport: "search a n = None \<Longrightarrow> search_fails a n"
  by (simp add: search_fails_def search_try_def)

lemma search_fails_no_result:
  "search a n = Some (JObj d) \<Longrightarrow> \<not> truthy (dict_get d ''search'') \<Longrightarrow> search_fails a n"
  by (simp add: search_fails_def search_try_def dict_get_def)

lemma get_wikidata_id_miss:
  "search_fails a n \<Longrightarrow> map_of (qid_lookup st) n = None \<Longrightarrow>
     get_wikidata_id a n st = (JNull, emit (Search n) st)"
  by (auto simp: get_wikidata_id_def search_fails_def split: option.splits)

lemma process_city_miss:
  assumes "search_fails a n" "map_of (qid_lookup st) n = None" "city_name c = Inr n"
  shows "process_city a c st = (Skipped, emit (Search n) st)"
proof -
  from city_name_Inr [OF assms(3)] obtain city where "c = JObj city" by blast
  with assms(3) get_wikidata_id_miss [OF assms(1,2)] show ?thesis
    by (simp add: process_city_def)
qed

lemma grows_failed_search:
  "grows a st st' \<Longrightarrow> search_fails a n \<Longrightarrow> map_of (qid_lookup st) n = None
     \<Longrightarrow> map_of (qid_lookup st') n = None"
  by (cases "map_of (qid_lookup st') n") (auto simp: grows_def search_fails_def)

lemma process_city_never_emits_failed:
  assumes "search_fails a n" "map_of (qid_lookup st) n = None" "process_city a c st = (res, st')"
  shows "map_of (qid_lookup st') n = None" and "JStr n \<notin> line_name ` set (emitted_lines res)"
proof -
  from advances_process_city [OF assms(3)] have "grows a st st'" by simp
  from grows_failed_search [OF this assms(1,2)] show n: "map_of (qid_lookup st') n = None" .
  show "JStr n \<notin> line_name ` set (emitted_lines res)"
  proof (cases res)
    case (Emitted r)
    from process_city_emitted_capital [OF assms(3) [unfolded Emitted]] obtain name qid where
      "map_of (qid_lookup st') name = Some qid" "map_of r ''CityNameEn'' = Some (JStr name)"
      by blast
    with n Emitted show ?thesis by (auto simp: dict_get_def)
  qed simp_all
qed

lemma process_loop_never_emits_failed:
  assumes "search_fails a n"
  shows "process_loop a cs st = (err, st') \<Longrightarrow> map_of (qid_lookup st) n = None \<Longrightarrow>
     map_of (qid_lookup st') n = None
     \<and> (\<exists>new. ledger (disk st') = ledger (disk st) @ new \<and> JStr n \<notin> line_name ` set new)"
proof (induction cs arbitrary: st)
  case Nil
  then show ?case by simp
next
  case (Cons c cs)
  from Cons.prems(1) show ?case
  proof (cases rule: process_loop_cases)
    case (stop e)
    from process_city_never_emits_failed [OF assms Cons.prems(2) stop(1)]
      ledger_process_city(1) [OF stop(1)]
    show ?thesis by simp
  next
    case (continue res st1)
    note s = process_city_never_emits_failed [OF assms Cons.prems(2) continue(1)]
    from Cons.IH [OF continue(3) s(1)] obtain new where
      n: "map_of (qid_lookup st') n = None" "ledger (disk st') = ledger (disk st1) @ new"
         "JStr n \<notin> line_name ` set new"
      by blast
    have "ledger (disk st') = ledger (disk st) @ (emitted_lines res @ new)"
      using ledger_process_city(1) [OF continue(1)] n(2) by simp
    moreover have "JStr n \<notin> line_name ` set (emitted_lines res @ new)"
      using s(2) n(3) by auto
    ultimately show ?thesis using n(1) by blast
  qed
qed

lemma add_lines_subset:
  "add_lines ls P = Inr P' \<Longrightarrow> P' \<subseteq> P \<union> line_name ` set ls"
proof (induction ls arbitrary: P)
  case Nil
  then show ?case by simp
next
  case (Cons l ls)
  from Cons.prems obtain P1 where 1: "add_line l P = Inr P1" "add_lines ls P1 = Inr P'"
    by (auto split: sum.splits)
  from 1(1) have "P1 \<subseteq> insert (line_name l) P"
    by (cases "(l, P)" rule: add_line.cases) (auto split: if_splits)
  with Cons.IH [OF 1(2)] show ?case by auto
qed

lemma load_processed_subset:
  "load_processed_city_names (output_file fs) = Inr P \<Longrightarrow> P \<subseteq> line_name ` set (ledger fs)"
  by (auto simp: load_processed_city_names_def ledger_def split: option.splits
        dest!: add_lines_subset)

lemma new_events_append:
  assumes "traced st st1" "traced st1 st2"
  shows "new_events st st2 = new_events st st1 @ new_events st1 st2"
proof -
  obtain e1 e2 where e: "trace st1 = trace st @ e1" "trace st2 = trace st1 @ e2"
    using traced_new_events(1) [OF assms(1)] traced_new_events(1) [OF assms(2)] by blast
  then show ?thesis by (simp add: new_events_def)
qed

lemma extends_traced: "traced st st' \<Longrightarrow> extends st st'"
  by (auto simp: traced_def extends_def)

lemma extends_trans: "extends st st1 \<Longrightarrow> extends st1 st2 \<Longrightarrow> extends st st2"
  by (auto simp: extends_def)

lemma process_city_searches:
  assumes "process_city a c st = (res, st')" "city_name c = Inr n" "map_of (qid_lookup st) n = None"
  shows "Search n \<in> set (new_events st st')"
proof -
  obtain qid st1 where g: "get_wikidata_id a n st = (qid, st1)" by fastforce
  with assms(3) have t1: "trace st1 = trace st @ [Search n]"
    by (auto simp: get_wikidata_id_def emit_def save_qid_def split: option.splits)
  have "extends st1 st'"
    using assms(1)
  proof (cases rule: process_city_cases)
    case (bad e)
    with assms(2) show ?thesis by simp
  next
    case (skip city name qid)
    with assms(2) g show ?thesis by (simp add: extends_def)
  next
    case (country_raise city' name qid' st1' e)
    with assms(2) g have e: "st1' = st1" "qid' = qid" by simp_all
    have "extends st1 (emit (FetchCity qid) st1)"
      by (rule extends_traced [OF traced_emit_FetchCity])
    moreover have "extends (emit (FetchCity qid) st1) st'"
      using extends_traced [OF traced_country_stage] country_raise(5) e by blast
    ultimately show ?thesis by (rule extends_trans)
  next
    case (state_raise city' name qid' st1' city2 st3 e)
    with assms(2) g have e: "st1' = st1" "qid' = qid" by simp_all
    have "extends st1 (emit (FetchCity qid) st1)"
      by (rule extends_traced [OF traced_emit_FetchCity])
    moreover have "extends (emit (FetchCity qid) st1) st3"
      using extends_traced [OF traced_country_stage] state_raise(5) e by blast
    moreover have "extends st3 st'"
      using extends_traced [OF traced_state_stage] state_raise(6) by blast
    ultimately show ?thesis by (blast intro: extends_trans)
  next
    case (emitted city' name qid' st1' city2 st3 city3 st4)
    with assms(2) g have e: "st1' = st1" "qid' = qid" by simp_all
    have "extends st1 (emit (FetchCity qid) st1)"
      by (rule extends_traced [OF traced_emit_FetchCity])
    moreover have "extends (emit (FetchCity qid) st1) st3"
      using extends_traced [OF traced_country_stage] emitted(5) e by blast
    moreover have "extends st3 st4"
      using extends_traced [OF traced_state_stage] emitted(6) by blast
    moreover have "extends st4 st'"
      unfolding emitted(8) by (rule extends_traced [OF traced_finish])
    ultimately show ?thesis by (blast intro: extends_trans)
  qed
  with t1 show ?thesis
    by (auto simp: new_events_def extends_def)
qed

lemma process_loop_searches:
  "process_loop a cs st = (None, st') \<Longrightarrow> c \<in> set cs \<Longrightarrow> city_name c = Inr n
     \<Longrightarrow> map_of (qid_lookup st) n = None \<Longrightarrow> Search n \<in> set (new_events st st')"
proof (induction cs arbitrary: st)
  case Nil
  then show ?case by simp
next
  case (Cons c' cs)
  from Cons.prems(1) show ?case
  proof (cases rule: process_loop_cases)
    case (stop e)
    then show ?thesis by simp
  next
    case (continue res st1)
    note t1 = advances_process_city [OF continue(1)]
    note t2 = advances_process_loop [OF continue(3)]
    have app: "new_events st st' = new_events st st1 @ new_events st1 st'"
      using new_events_append t1 t2 by blast
    show ?thesis
    proof (cases "map_of (qid_lookup st1) n = None")
      case False
      with traced_new_events(3) [of st st1 n] t1 Cons.prems(4)
      have "Search n \<in> set (new_events st st1)" by blast
      with app show ?thesis by simp
    next
      case True
      show ?thesis
      proof (cases "c = c'")
        case True
        with process_city_searches [OF continue(1) _ Cons.prems(4)] Cons.prems(3) app
        show ?thesis by simp
      next
        case False
        with Cons.prems(2) have "c \<in> set cs" by simp
        from Cons.IH [OF continue(3) this Cons.prems(3) True] app show ?thesis by simp
      qed
    qed
  qed
qed

lemma input_file_process_loop:
  "process_loop a cs st = (err, st') \<Longrightarrow> input_file (disk st') = input_file (disk st)"
proof (induction cs arbitrary: st)
  case Nil
  then show ?case by simp
next
  case (Cons c cs)
  from Cons.prems show ?case
  proof (cases rule: process_loop_cases)
    case (stop e)
    then show ?thesis by (simp add: ledger_process_city(2))
  next
    case (continue res st1)
    with Cons.IH [OF continue(3)] ledger_process_city(2) [OF continue(1)] show ?thesis by simp
  qed
qed

lemma input_records_process_entries:
  assumes "process_entries a fs = (err, fs', tr)"
  shows "input_records fs' = input_records fs"
  using assms
proof (cases rule: process_entries_cases)
  case (startup_error e)
  then show ?thesis by simp
next
  case (run to_process st st')
  from input_file_process_loop [OF run(2)] startup_Inr(1) [OF run(1)] run(3)
  show ?thesis by (simp add: input_records_def)
qed

lemma run_never_emits_failed':
  assumes "search_fails a n" "process_entries a fs = (err, fs', tr)"
    "cache_of (qid_cache_file fs) n = None" "JStr n \<notin> line_name ` set (ledger fs)"
  shows "cache_of (qid_cache_file fs') n = None \<and> JStr n \<notin> line_name ` set (ledger fs')"
  using assms(2)
proof (cases rule: process_entries_cases)
  case (startup_error e)
  with assms(3,4) show ?thesis by simp
next
  case (run to_process st st')
  note s = startup_Inr [OF run(1)]
  have sy: "synced st'" using synced_process_loop [OF run(2) s(3)] .
  have "map_of (qid_lookup st) n = None"
    using synced_cache_of(1) [OF s(3)] s(1) assms(3) by simp
  from process_loop_never_emits_failed [OF assms(1) run(2) this] obtain new where
    n: "map_of (qid_lookup st') n = None" "ledger (disk st') = ledger (disk st) @ new"
       "JStr n \<notin> line_name ` set new"
    by blast
  from n(1) synced_cache_of(1) [OF sy] run(3) have "cache_of (qid_cache_file fs') n = None"
    by simp
  moreover from n(2,3) assms(4) s(1) run(3) have "JStr n \<notin> line_name ` set (ledger fs')"
    by auto
  ultimately show ?thesis ..
qed

lemmas run_never_emits_failed =
  run_never_emits_failed' [THEN conjunct1] run_never_emits_failed' [THEN conjunct2]

lemma run_searches_unresolved:
  assumes "process_entries a fs = (None, fs', tr)"
    "c \<in> set (input_records fs)" "city_name c = Inr n"
    "cache_of (qid_cache_file fs) n = None" "JStr n \<notin> line_name ` set (ledger fs)"
  shows "Search n \<in> set tr"
  using assms(1)
proof (cases rule: process_entries_cases)
  case (startup_error e)
  then show ?thesis by simp
next
  case (run to_process st st')
  note s = startup_Inr [OF run(1)]
  from startup_to_process [OF run(1)] obtain processed where
    p: "load_processed_city_names (output_file fs) = Inr processed"
       "to_process = filter (\<lambda>c. JStr (name_of c) \<notin> processed) (input_records fs)"
    by blast
  from load_processed_subset [OF p(1)] assms(5) have "JStr n \<notin> processed" by blast
  with p(2) assms(2) name_of_Inr [OF assms(3)] have c: "c \<in> set to_process" by simp
  have "map_of (qid_lookup st) n = None"
    using synced_cache_of(1) [OF s(3)] s(1) assms(4) by simp
  from process_loop_searches [OF run(2) c assms(3) this] new_events_whole [OF s(2)] run(4)
  show ?thesis by simp
qed

text \<open>
  C4. Resolver-miss retry eligibility. For a name \<open>n\<close> whose search fails and that is not
  in the identifier cache: \<^verbatim>\<open>get_wikidata_id\<close> returns \<^verbatim>\<open>None\<close> and changes nothing but
  the trace (one search request); the loop body ends with \<^verbatim>\<open>continue\<close>, so neither the
  cache nor the ledger is written. After a whole run, \<open>n\<close> is still not in the cache
  file and no ledger line carries it, if none did before; and every later run on the same
  input that runs to its end, whatever the external source then answers, searches for
  \<open>n\<close> again.
\<close>

theorem resolver_miss_retry:
  assumes "search_fails a n"
  shows "(map_of (qid_lookup st) n = None \<longrightarrow>
            get_wikidata_id a n st = (JNull, emit (Search n) st))
       \<and> (map_of (qid_lookup st) n = None \<and> city_name c = Inr n \<longrightarrow>
            process_city a c st = (Skipped, emit (Search n) st))
       \<and> (process_entries a fs = (err, fs', tr) \<and> cache_of (qid_cache_file fs) n = None
            \<and> JStr n \<notin> line_name ` set (ledger fs) \<longrightarrow>
              cache_of (qid_cache_file fs') n = None
            \<and> JStr n \<notin> line_name ` set (ledger fs')
            \<and> (\<forall>a2 fs2 tr2 c2. process_entries a2 fs' = (None, fs2, tr2)
                   \<and> c2 \<in> set (input_records fs) \<and> city_name c2 = Inr n
                 \<longrightarrow> Search n \<in> set tr2))"
proof (intro conjI impI allI; (elim conjE)?)
  assume "map_of (qid_lookup st) n = None"
  then show "get_wikidata_id a n st = (JNull, emit (Search n) st)"
    by (rule get_wikidata_id_miss [OF assms])
next
  assume "map_of (qid_lookup st) n = None" "city_name c = Inr n"
  then show "process_city a c st = (Skipped, emit (Search n) st)"
    by (rule process_city_miss [OF assms])
next
  assume r: "process_entries a fs = (err, fs', tr)" "cache_of (qid_cache_file fs) n = None"
    "JStr n \<notin> line_name ` set (ledger fs)"
  note f = run_never_emits_failed [OF assms r]
  show "cache_of (qid_cache_file fs') n = None" by (rule f(1))
  show "JStr n \<notin> line_name ` set (ledger fs')" by (rule f(2))
  fix a2 fs2 tr2 c2
  assume l: "process_entries a2 fs' = (None, fs2, tr2)" "c2 \<in> set (input_records fs)"
    "city_name c2 = Inr n"
  from l(2) input_records_process_entries [OF r(1)] have "c2 \<in> set (input_records fs')" by simp
  from run_searches_unresolved [OF l(1) this l(3) f] show "Search n \<in> set tr2" .
qed

theorem resolver_miss_retry_witness:
  "search_fails test_api ''Nowhere''
   \<and> map_of (qid_lookup cold_state) ''Nowhere'' = None
   \<and> city_name (city_in ''Nowhere'') = Inr ''Nowhere''
   \<and> get_wikidata_id test_api ''Nowhere'' cold_state = (JNull, emit (Search ''Nowhere'') cold_state)
   \<and> process_city test_api (city_in ''Nowhere'') cold_state = (Skipped, emit (Search ''Nowhere'') cold_state)
   \<and> cache_of (qid_cache_file fresh_files) ''Nowhere'' = None
   \<and> JStr ''Nowhere'' \<notin> line_name ` set (ledger fresh_files)
   \<and> cache_of (qid_cache_file after_first_run) ''Nowhere'' = None
   \<and> JStr ''Nowhere'' \<notin> line_name ` set (ledger after_first_run)
   \<and> city_in ''Nowhere'' \<in> set (input_records fresh_files)
   \<and> process_entries test_api after_first_run = (None, after_first_run, [Search ''Nowhere''])
   \<and> Search ''Nowhere'' \<in> set [Search ''Nowhere'']"
proof -
  have f: "search_fails test_api ''Nowhere''"
    by (simp add: search_fails_def search_try_def test_api_def)
  have 1: "map_of (qid_lookup cold_state) ''Nowhere'' = None"
      "city_name (city_in ''Nowhere'') = Inr ''Nowhere''"
      "cache_of (qid_cache_file fresh_files) ''Nowhere'' = None"
      "JStr ''Nowhere'' \<notin> line_name ` set (ledger fresh_files)"
      "city_in ''Nowhere'' \<in> set (input_records fresh_files)"
    by (simp_all add: cold_state_def city_in_def cache_of_def fresh_files_def ledger_def
          input_records_def)
  note t = resolver_miss_retry [OF f, of cold_state "city_in ''Nowhere''" fresh_files None
      after_first_run _]
  from t f 1 first_run second_run show ?thesis
    by blast
qed

section \<open>What ends the process\<close>

lemma add_lines_ok:
  "\<forall>l \<in> set ls. l = Unparseable \<or> valid_line l \<Longrightarrow> \<exists>P'. add_lines ls P = Inr P'"
proof (induction ls arbitrary: P)
  case Nil
  then show ?case by simp
next
  case (Cons l ls)
  then have "l = Unparseable \<or> valid_line l" by simp
  then obtain P1 where "add_line l P = Inr P1"
    by (auto simp: add_line_valid)
  with Cons show ?case by simp
qed

lemma load_processed_ok:
  "\<forall>l \<in> set (ledger fs). l = Unparseable \<or> valid_line l \<Longrightarrow>
     \<exists>P. load_processed_city_names (output_file fs) = Inr P"
proof (cases "output_file fs")
  case None
  then show ?thesis by (simp add: load_processed_city_names_def)
next
  case (Some ls)
  assume "\<forall>l \<in> set (ledger fs). l = Unparseable \<or> valid_line l"
  with Some have "\<forall>l \<in> set ls. l = Unparseable \<or> valid_line l" by (simp add: ledger_def)
  from add_lines_ok [OF this, of "{}"] Some show ?thesis
    by (simp add: load_processed_city_names_def)
qed

lemma select_unprocessed_ok:
  "\<forall>c \<in> set cs. \<exists>n. city_name c = Inr n \<Longrightarrow> \<exists>tp. select_unprocessed cs P = Inr tp"
  by (induction cs) auto

lemma load_json_cases:
  "load_json f = (if f = Malformed then Inl JSONDecodeError
                  else Inr (case f of Content d \<Rightarrow> d | _ \<Rightarrow> []))"
  by (cases f) simp_all

lemma startup_data_ok:
  assumes "data_ok fs"
  shows "startup_abort fs \<Longrightarrow> \<exists>e. startup fs = Inl e"
    and "\<not> startup_abort fs \<Longrightarrow> \<exists>tp st. startup fs = Inr (tp, st)"
proof -
  from assms have l: "\<forall>l \<in> set (ledger fs). l = Unparseable \<or> valid_line l"
    and i: "\<And>j. input_file fs = Content j \<Longrightarrow>
         \<exists>cs. j = JArr cs \<and> (\<forall>c \<in> set cs. \<exists>n. city_name c = Inr n)"
    by (auto simp: data_ok_def)
  from load_processed_ok [OF l] obtain P where P: "load_processed_city_names (output_file fs) = Inr P"
    by blast
  show "\<exists>e. startup fs = Inl e" if "startup_abort fs"
    using that
    by (cases "input_file fs")
       (auto simp: startup_def startup_abort_def load_json_cases split: sum.splits)
  show "\<exists>tp st. startup fs = Inr (tp, st)" if "\<not> startup_abort fs"
  proof -
    from that obtain j where j: "input_file fs = Content j"
      by (cases "input_file fs") (auto simp: startup_abort_def)
    from i [OF j] obtain cs where cs: "j = JArr cs" "\<forall>c \<in> set cs. \<exists>n. city_name c = Inr n"
      by blast
    from select_unprocessed_ok [OF cs(2)] obtain tp where "select_unprocessed cs P = Inr tp"
      by blast
    with that j cs(1) P show ?thesis
      by (simp add: startup_def startup_abort_def load_json_cases)
  qed
qed

lemma py_get_None: "py_get v k d = None \<Longrightarrow> \<not> is_dict v"
  by (cases v) simp_all

lemma country_stage_no_raise:
  assumes "id_ok cqid" "all_dicts (map_of (country_cache st))"
    "country_stage a qid cqid city st = (r, st')"
  shows "\<exists>city2. r = Inr city2" and "all_dicts (map_of (country_cache st'))"
  using assms
  by (auto simp: country_stage_def id_ok_def all_dicts_def emit_def save_countries_def
        map_of_dict_set Let_def split: option.splits json.splits if_splits
        dest: py_get_None)

lemma state_stage_no_raise:
  assumes "id_ok sqid" "state_stage a sqid city st = (r, st')"
  shows "\<exists>city3. r = Inr city3" and "country_cache st' = country_cache st"
  using assms
  by (auto simp: state_stage_def id_ok_def emit_def save_states_def
        map_of_dict_set Let_def split: option.splits json.splits if_splits)

lemma get_wikidata_id_countries:
  "get_wikidata_id a n st = (qid, st') \<Longrightarrow> country_cache st' = country_cache st"
  by (auto simp: get_wikidata_id_def emit_def save_qid_def split: option.splits)

lemma process_city_no_raise:
  assumes "api_ids_ok a" "all_dicts (map_of (country_cache st))"
    "city_name c = Inr n" "process_city a c st = (res, st')"
  shows "(\<forall>e. res \<noteq> Raised e) \<and> all_dicts (map_of (country_cache st'))"
  using assms(4)
proof (cases rule: process_city_cases)
  case (bad e)
  with assms(3) show ?thesis by simp
next
  case (skip city name qid)
  with assms(2) get_wikidata_id_countries [OF skip(3)] show ?thesis by simp
next
  case (country_raise city name qid st1 e)
  have "all_dicts (map_of (country_cache (emit (FetchCity qid) st1)))"
    using assms(2) get_wikidata_id_countries [OF country_raise(3)] by (simp add: emit_def)
  from country_stage_no_raise(1) [OF _ this country_raise(5)] assms(1)
  show ?thesis by (simp add: api_ids_ok_def)
next
  case (state_raise city name qid st1 city2 st3 e)
  from state_stage_no_raise(1) [OF _ state_raise(6)] assms(1)
  show ?thesis by (simp add: api_ids_ok_def)
next
  case (emitted city name qid st1 city2 st3 city3 st4)
  have "all_dicts (map_of (country_cache (emit (FetchCity qid) st1)))"
    using assms(2) get_wikidata_id_countries [OF emitted(3)] by (simp add: emit_def)
  from country_stage_no_raise(2) [OF _ this emitted(5)] assms(1)
  have "all_dicts (map_of (country_cache st3))" by (simp add: api_ids_ok_def)
  moreover from state_stage_no_raise(2) [OF _ emitted(6)] assms(1)
  have "country_cache st4 = country_cache st3" by (simp add: api_ids_ok_def)
  ultimately show ?thesis
    by (simp add: emitted(7,8) emit_def)
qed

lemma process_loop_no_raise:
  assumes "api_ids_ok a"
  shows "process_loop a cs st = (err, st') \<Longrightarrow> all_dicts (map_of (country_cache st))
     \<Longrightarrow> \<forall>c \<in> set cs. \<exists>n. city_name c = Inr n \<Longrightarrow> err = None"
proof (induction cs arbitrary: st)
  case Nil
  then show ?case by simp
next
  case (Cons c cs)
  from Cons.prems(3) obtain n where n: "city_name c = Inr n" by auto
  from Cons.prems(1) show ?case
  proof (cases rule: process_loop_cases)
    case (stop e)
    with process_city_no_raise [OF assms Cons.prems(2) n stop(1)] show ?thesis by simp
  next
    case (continue res st1)
    from process_city_no_raise [OF assms Cons.prems(2) n continue(1)]
    have "all_dicts (map_of (country_cache st1))" by simp
    from Cons.IH [OF continue(3) this] Cons.prems(3) show ?thesis by simp
  qed
qed

text \<open>
  C6 (as amended). With data and responses of the expected shape (\<open>data_ok\<close>,
  \<open>api_ids_ok\<close>), the process ends with an exception exactly when the input file is
  missing or unparseable or one of the three cache files exists but is malformed; it then
  ends at startup, with no request issued and no file changed. Whatever requests fail
  during the run, the run goes to its end. An absent cache file is read as the empty
  dictionary.
\<close>

theorem termination_only_at_startup:
  assumes "data_ok fs" and "api_ids_ok a" and "process_entries a fs = (err, fs', tr)"
  shows "(err \<noteq> None \<longleftrightarrow> startup_abort fs)
       \<and> (err \<noteq> None \<longrightarrow> fs' = fs \<and> tr = [])
       \<and> load_json Absent = Inr []"
  using assms(3)
proof (cases rule: process_entries_cases)
  case (startup_error e)
  with startup_data_ok(2) [OF assms(1)] show ?thesis by auto
next
  case (run to_process st st')
  from startup_data_ok(1) [OF assms(1)] run(1) have na: "\<not> startup_abort fs" by auto
  note s = startup_Inr [OF run(1)]
  from startup_to_process [OF run(1)]
  have names: "\<forall>c \<in> set to_process. \<exists>n. city_name c = Inr n" by auto
  have "all_dicts (map_of (country_cache st))"
    using assms(1) synced_cache_of(2) [OF s(3)] s(1) by (simp add: data_ok_def)
  from process_loop_no_raise [OF assms(2) run(2) this names] na show ?thesis by simp
qed

text \<open>
  C6 as stated fails for a cache file that exists but is malformed: \<^verbatim>\<open>load_json\<close> only
  tests whether the file exists, \<^verbatim>\<open>json.load\<close> raises, and the process ends at startup
  although the input file is there and parses.
\<close>

theorem malformed_cache_terminates:
  "process_entries test_api (fresh_files\<lparr>countries_file := Malformed\<rparr>)
     = (Some JSONDecodeError, fresh_files\<lparr>countries_file := Malformed\<rparr>, [])"
  by (simp add: process_entries_def startup_def fresh_files_def)

lemma api_ids_ok_test_api: "api_ids_ok test_api"
proof -
  have "id_ok (dict_get (enrich_city test_api q) ''CountryQID'')
      \<and> id_ok (dict_get (enrich_city test_api q) ''StateQID'')" for q
  proof (cases "entity test_api q")
    case None
    then show ?thesis by (simp add: enrich_city_fail dict_get_def id_ok_def)
  next
    case (Some d)
    then have "q = JStr ''Q1'' \<or> q = JStr ''Q2'' \<or> q = JStr ''Q3''"
      by (simp add: test_api_def split: if_splits)
    then show ?thesis
      by (elim disjE) (simp_all add: id_ok_def run_defs fixture_defs)
  qed
  then show ?thesis by (simp add: api_ids_ok_def)
qed

lemma data_ok_fresh_files: "data_ok fresh_files"
  by (simp add: data_ok_def all_dicts_def ledger_def cache_of_def fresh_files_def city_in_def)

theorem termination_only_at_startup_witness:
  "data_ok fresh_files \<and> api_ids_ok test_api \<and> \<not> startup_abort fresh_files
   \<and> process_entries test_api fresh_files =
       (None, after_first_run,
        [Search ''Testville'', FetchCity (JStr ''Q1''), FetchEntity ''Q2'' Country, Sleep 1,
         Search ''Nowhere'',
         Search ''Othertown'', FetchCity (JStr ''Q3''), FetchEntity ''Q4'' State, Sleep 1])
   \<and> data_ok (fresh_files\<lparr>input_file := Absent\<rparr>)
   \<and> startup_abort (fresh_files\<lparr>input_file := Absent\<rparr>)
   \<and> process_entries test_api (fresh_files\<lparr>input_file := Absent\<rparr>)
       = (Some FileNotFoundError, fresh_files\<lparr>input_file := Absent\<rparr>, [])"
proof -
  have 1: "\<not> startup_abort fresh_files" "startup_abort (fresh_files\<lparr>input_file := Absent\<rparr>)"
    by (simp_all add: startup_abort_def fresh_files_def)
  have 2: "data_ok (fresh_files\<lparr>input_file := Absent\<rparr>)"
    by (simp add: data_ok_def all_dicts_def ledger_def cache_of_def fresh_files_def)
  have 3: "process_entries test_api (fresh_files\<lparr>input_file := Absent\<rparr>)
       = (Some FileNotFoundError, fresh_files\<lparr>input_file := Absent\<rparr>, [])"
    by (simp add: process_entries_def startup_def)
  from termination_only_at_startup [OF data_ok_fresh_files api_ids_ok_test_api first_run]
    termination_only_at_startup [OF 2 api_ids_ok_test_api 3]
    data_ok_fresh_files api_ids_ok_test_api 1 2 3 first_run
  show ?thesis by blast
qed

section \<open>Degradation of the detail fetch\<close>

lemma lacks_claim_get_claim:
  assumes "lacks_claim a qid p"
  obtains labels claims where "entity_parts (entity a qid) qid = Some (labels, claims)"
    "get_claim claims p = Some JNull"
proof -
  from assms obtain labels cl where
    e: "entity_parts (entity a qid) qid = Some (labels, JObj cl)"
       "\<not> truthy (case map_of cl p of None \<Rightarrow> JArr [] | Some v \<Rightarrow> v)"
    by (auto simp: lacks_claim_def split: option.splits prod.splits json.splits)
  from e(2) have "get_claim (JObj cl) p = Some JNull"
    by (simp add: get_claim_def)
  with e(1) that show ?thesis by blast
qed

lemma enrich_city_try_fields:
  assumes "enrich_city_try r qid = Some info" "entity_parts r qid = Some (labels, claims)"
  shows "map fst info = city_keys"
    and "map_of info ''CityNameAr'' = label_value labels ''ar''"
    and "map_of info ''CountryQID'' = claim_id claims ''P17''"
    and "map_of info ''StateQID'' = claim_id claims ''P131''"
    and "map_of info ''Latitude'' = claim_coord claims ''latitude''"
    and "map_of info ''Longitude'' = claim_coord claims ''longitude''"
    and "map_of info ''Population'' = claim_population claims"
    and "map_of info ''IsoCode'' = get_claim claims ''P300''"
  using assms unfolding enrich_city_try_def city_keys_def
  by (auto split: Option.bind_splits)

lemma enrich_city_shape: "enrich_city a qid = [] \<or> map fst (enrich_city a qid) = city_keys"
proof (cases "enrich_city_try (entity a qid) qid")
  case None
  then show ?thesis by (simp add: enrich_city_def)
next
  case (Some info)
  then obtain labels claims where "entity_parts (entity a qid) qid = Some (labels, claims)"
    by (cases "entity_parts (entity a qid) qid") (auto simp: enrich_city_try_def)
  from enrich_city_try_fields(1) [OF Some this] Some show ?thesis
    by (simp add: enrich_city_def)
qed

lemma claim_id_lacks: "get_claim claims p = Some JNull \<Longrightarrow> claim_id claims p = Some JNull"
  by (simp add: claim_id_def)

lemma claim_coord_lacks:
  "get_claim claims ''P625'' = Some JNull \<Longrightarrow> claim_coord claims f = Some JNull"
  by (simp add: claim_coord_def)

lemma claim_population_lacks:
  "get_claim claims ''P1082'' = Some JNull \<Longrightarrow> claim_population claims = Some JNull"
  by (simp add: claim_population_def)

lemma enrich_city_lacks:
  assumes "lacks_claim a qid p" "(p, f) \<in> set city_claim_fields"
  shows "dict_get (enrich_city a qid) f = JNull"
    and "enrich_city a qid \<noteq> [] \<Longrightarrow> map_of (enrich_city a qid) f = Some JNull"
proof -
  from assms(1) obtain labels claims where
    e: "entity_parts (entity a qid) qid = Some (labels, claims)" "get_claim claims p = Some JNull"
    by (rule lacks_claim_get_claim)
  have "enrich_city a qid = [] \<or> map_of (enrich_city a qid) f = Some JNull"
  proof (cases "enrich_city_try (entity a qid) qid")
    case None
    then show ?thesis by (simp add: enrich_city_def)
  next
    case (Some info)
    note i = enrich_city_try_fields [OF Some e(1)]
    from assms(2) have "(p, f) = (''P17'', ''CountryQID'') \<or> (p, f) = (''P131'', ''StateQID'')
        \<or> (p, f) = (''P625'', ''Latitude'') \<or> (p, f) = (''P625'', ''Longitude'')
        \<or> (p, f) = (''P1082'', ''Population'') \<or> (p, f) = (''P300'', ''IsoCode'')"
      by (simp add: city_claim_fields_def)
    then have "map_of info f = Some JNull"
    proof (elim disjE)
      assume "(p, f) = (''P17'', ''CountryQID'')"
      with e(2) i(3) show ?thesis by (simp add: claim_id_lacks)
    next
      assume "(p, f) = (''P131'', ''StateQID'')"
      with e(2) i(4) show ?thesis by (simp add: claim_id_lacks)
    next
      assume "(p, f) = (''P625'', ''Latitude'')"
      with e(2) i(5) show ?thesis by (simp add: claim_coord_lacks)
    next
      assume "(p, f) = (''P625'', ''Longitude'')"
      with e(2) i(6) show ?thesis by (simp add: claim_coord_lacks)
    next
      assume "(p, f) = (''P1082'', ''Population'')"
      with e(2) i(7) show ?thesis by (simp add: claim_population_lacks)
    next
      assume "(p, f) = (''P300'', ''IsoCode'')"
      with e(2) i(8) show ?thesis by simp
    qed
    with Some show ?thesis by (simp add: enrich_city_def)
  qed
  then show "dict_get (enrich_city a qid) f = JNull"
    and "enrich_city a qid \<noteq> [] \<Longrightarrow> map_of (enrich_city a qid) f = Some JNull"
    by (auto simp: dict_get_def)
qed

lemma get_entity_info_try_country:
  assumes "get_entity_info_try r k Country = Some info"
    "entity_parts r (JStr k) = Some (labels, claims)"
  shows "get_claim claims ''P297'' = Some JNull \<Longrightarrow> map_of info ''IsoAlpha2'' = Some JNull"
    and "get_claim claims ''P36'' = Some JNull \<Longrightarrow> map_of info ''CapitalQID'' = None"
  using assms unfolding get_entity_info_try_def
  by (auto simp: Let_def split: Option.bind_splits if_splits)

lemma get_entity_info_try_state:
  assumes "get_entity_info_try r k State = Some info"
    "entity_parts r (JStr k) = Some (labels, claims)"
  shows "get_claim claims ''P300'' = Some JNull \<Longrightarrow> map_of info ''IsoCode'' = Some JNull"
    and "get_claim claims ''P17'' = Some JNull \<Longrightarrow> map_of info ''CountryQID'' = None"
  using assms unfolding get_entity_info_try_def
  by (auto simp: Let_def split: Option.bind_splits if_splits)

lemma get_entity_info_lacks:
  assumes "lacks_claim a (JStr k) p" "(p, f) \<in> set (parent_claim_fields lvl)"
  shows "dict_get (get_entity_info a k lvl) f = JNull"
proof -
  from assms(1) obtain labels claims where
    e: "entity_parts (entity a (JStr k)) (JStr k) = Some (labels, claims)"
       "get_claim claims p = Some JNull"
    by (rule lacks_claim_get_claim)
  show ?thesis
  proof (cases "get_entity_info_try (entity a (JStr k)) k lvl")
    case None
    then show ?thesis by (simp add: get_entity_info_def dict_get_def)
  next
    case (Some info)
    have "map_of info f = Some JNull \<or> map_of info f = None"
    proof (cases lvl)
      case City
      with assms(2) show ?thesis by simp
    next
      case Country
      with assms(2) have "(p, f) = (''P297'', ''IsoAlpha2'') \<or> (p, f) = (''P36'', ''CapitalQID'')"
        by simp
      with get_entity_info_try_country [OF Some [unfolded Country] e(1)] e(2)
      show ?thesis by auto
    next
      case State
      with assms(2) have "(p, f) = (''P300'', ''IsoCode'') \<or> (p, f) = (''P17'', ''CountryQID'')"
        by simp
      with get_entity_info_try_state [OF Some [unfolded State] e(1)] e(2)
      show ?thesis by auto
    qed
    with Some show ?thesis by (auto simp: get_entity_info_def dict_get_def)
  qed
qed

lemma map_of_dict_update:
  "distinct (map fst other) \<Longrightarrow>
     map_of (dict_update d other) k = (case map_of other k of Some v \<Rightarrow> Some v | None \<Rightarrow> map_of d k)"
proof (induction other arbitrary: d)
  case Nil
  then show ?case by simp
next
  case (Cons p ps)
  then have "map_of ps (fst p) = None"
    by (cases p) (simp add: map_of_eq_None_iff)
  with Cons show ?case
    by (cases p) (auto simp: map_of_dict_set split: option.splits)
qed

lemma enrich_city_distinct: "distinct (map fst (enrich_city a qid))"
  using enrich_city_shape [of a qid] by (auto simp: city_keys_def)

lemma process_city_emitted_info:
  assumes "process_city a c st = (Emitted r, st')"
  shows "\<exists>n qid. city_name c = Inr n \<and> map_of (qid_lookup st') n = Some qid
           \<and> (\<forall>f v. f \<noteq> ''CountryDetails'' \<and> f \<noteq> ''IsCapital'' \<and> f \<noteq> ''StateDetails''
                  \<and> map_of (enrich_city a qid) f = Some v \<longrightarrow> map_of r f = Some v)"
  using assms
proof (cases rule: process_city_cases)
  case (emitted city name qid st1 city2 st3 city3 st4)
  have g: "grows a st1 st'"
    unfolding emitted(8)
    using grows_emit [of a st1 "FetchCity qid"] grows_country_stage [OF emitted(5)]
      grows_state_stage [OF emitted(6)] grows_finish [of a st4 1 "append_jsonl city3 (disk st4)"]
    by (blast intro: grows_trans)
  have q: "map_of (qid_lookup st') name = Some qid"
    using grows_qid_Some [OF g get_wikidata_id_cached [OF emitted(3,4)]] .
  have "map_of r f = Some v"
    if "f \<noteq> ''CountryDetails''" "f \<noteq> ''IsCapital''" "f \<noteq> ''StateDetails''"
      "map_of (enrich_city a qid) f = Some v" for f v
    using that country_stage_fields [OF emitted(5), of f] state_stage_fields [OF emitted(6), of f]
      emitted(7) map_of_dict_update [OF enrich_city_distinct, of city a qid f]
    by simp
  with emitted(2) q show ?thesis by blast
qed simp_all

lemma process_city_without_parents:
  assumes "city_name c = Inr n" "get_wikidata_id a n st = (qid, st1)" "truthy qid"
    "\<not> truthy (dict_get (enrich_city a qid) ''CountryQID'')"
    "\<not> truthy (dict_get (enrich_city a qid) ''StateQID'')"
  shows "\<exists>r st'. process_city a c st = (Emitted r, st')
           \<and> map_of r ''IsCapital'' = Some (JBool False)"
proof -
  from city_name_Inr [OF assms(1)] obtain city where c: "c = JObj city" by blast
  with assms show ?thesis
    by (simp add: process_city_def country_stage_def state_stage_def Let_def map_of_dict_set)
qed

lemma lacks_claim_falsy:
  assumes "lacks_claim a qid p" "(p, f) \<in> set city_claim_fields"
  shows "\<not> truthy (dict_get (enrich_city a qid) f)"
  using enrich_city_lacks(1) [OF assms] by simp

text \<open>
  C9. Graceful degradation of the detail fetch. Both fetchers are total: they return a
  dictionary whatever the external source does. A transport or parse failure gives the
  empty dictionary. \<^verbatim>\<open>enrich_city\<close> returns the empty dictionary or one with exactly its
  seven keys. A property missing from the document leaves its field absent: reading the
  field gives \<^verbatim>\<open>None\<close>, and in the city record, when the fetch as a whole succeeded, the
  key is there with the value \<^verbatim>\<open>None\<close>; the emitted record then holds that key with
  \<^verbatim>\<open>None\<close> too. A city whose fetch failed, or whose document lacks both parent
  properties, is emitted and the loop goes on with the records after it.
\<close>

theorem graceful_degradation:
  "(entity a qid = None \<longrightarrow> enrich_city a qid = [])
 \<and> (entity a (JStr k) = None \<longrightarrow> get_entity_info a k lvl = [])
 \<and> (enrich_city a qid = [] \<or> map fst (enrich_city a qid) = city_keys)
 \<and> ((p, f) \<in> set city_claim_fields \<and> lacks_claim a qid p \<longrightarrow>
       dict_get (enrich_city a qid) f = JNull
     \<and> (enrich_city a qid \<noteq> [] \<longrightarrow> map_of (enrich_city a qid) f = Some JNull))
 \<and> ((p, f) \<in> set (parent_claim_fields lvl) \<and> lacks_claim a (JStr k) p \<longrightarrow>
       dict_get (get_entity_info a k lvl) f = JNull)
 \<and> (process_city a c st = (Emitted r, st') \<and> city_name c = Inr n
       \<and> map_of (qid_lookup st') n = Some qid
       \<and> (p, f) \<in> set city_claim_fields \<and> lacks_claim a qid p \<and> enrich_city a qid \<noteq> [] \<longrightarrow>
       map_of r f = Some JNull)
 \<and> (city_name c = Inr n \<and> fst (get_wikidata_id a n st) = qid \<and> truthy qid
       \<and> (entity a qid = None \<or> lacks_claim a qid ''P17'' \<and> lacks_claim a qid ''P131'') \<longrightarrow>
       (\<exists>r1 st1. process_city a c st = (Emitted r1, st1)
          \<and> process_loop a (c # cs) st = process_loop a cs st1))"
proof (intro conjI impI; (elim conjE)?)
  show "entity a qid = None \<Longrightarrow> enrich_city a qid = []" by (rule enrich_city_fail)
  show "entity a (JStr k) = None \<Longrightarrow> get_entity_info a k lvl = []" by (rule get_entity_info_fail)
  show "enrich_city a qid = [] \<or> map fst (enrich_city a qid) = city_keys" by (rule enrich_city_shape)
next
  assume "(p, f) \<in> set city_claim_fields" "lacks_claim a qid p"
  then show "dict_get (enrich_city a qid) f = JNull" by (simp add: enrich_city_lacks(1))
next
  assume "(p, f) \<in> set city_claim_fields" "lacks_claim a qid p" "enrich_city a qid \<noteq> []"
  then show "map_of (enrich_city a qid) f = Some JNull" by (simp add: enrich_city_lacks(2))
next
  assume "(p, f) \<in> set (parent_claim_fields lvl)" "lacks_claim a (JStr k) p"
  then show "dict_get (get_entity_info a k lvl) f = JNull" by (simp add: get_entity_info_lacks)
next
  assume e: "process_city a c st = (Emitted r, st')" "city_name c = Inr n"
    "map_of (qid_lookup st') n = Some qid" "(p, f) \<in> set city_claim_fields"
    "lacks_claim a qid p" "enrich_city a qid \<noteq> []"
  from process_city_emitted_info [OF e(1)] e(2,3)
  have i: "\<And>f v. f \<noteq> ''CountryDetails'' \<Longrightarrow> f \<noteq> ''IsCapital'' \<Longrightarrow> f \<noteq> ''StateDetails''
             \<Longrightarrow> map_of (enrich_city a qid) f = Some v \<Longrightarrow> map_of r f = Some v"
    by auto
  from e(4) have "f \<noteq> ''CountryDetails''" "f \<noteq> ''IsCapital''" "f \<noteq> ''StateDetails''"
    by (auto simp: city_claim_fields_def)
  from i [OF this enrich_city_lacks(2) [OF e(5,4,6)]] show "map_of r f = Some JNull" .
next
  assume e: "city_name c = Inr n" "fst (get_wikidata_id a n st) = qid" "truthy qid"
    "entity a qid = None \<or> lacks_claim a qid ''P17'' \<and> lacks_claim a qid ''P131''"
  obtain s1 where g: "get_wikidata_id a n st = (qid, s1)"
    using e(2) by (cases "get_wikidata_id a n st") simp
  have "\<not> truthy (dict_get (enrich_city a qid) ''CountryQID'')
      \<and> \<not> truthy (dict_get (enrich_city a qid) ''StateQID'')"
    using e(4)
  proof
    assume "entity a qid = None"
    then show ?thesis by (simp add: enrich_city_fail dict_get_def)
  next
    assume "lacks_claim a qid ''P17'' \<and> lacks_claim a qid ''P131''"
    then show ?thesis
      using lacks_claim_falsy [of a qid "''P17''" "''CountryQID''"]
        lacks_claim_falsy [of a qid "''P131''" "''StateQID''"]
      by (simp add: city_claim_fields_def)
  qed
  with process_city_without_parents [OF e(1) g e(3)] obtain r1 st1 where
    "process_city a c st = (Emitted r1, st1)" by blast
  then show "\<exists>r1 st1. process_city a c st = (Emitted r1, st1)
          \<and> process_loop a (c # cs) st = process_loop a cs st1"
    by simp
qed

theorem graceful_degradation_witness:
  "entity test_api (JStr ''Q4'') = None \<and> enrich_city test_api (JStr ''Q4'') = []
   \<and> get_entity_info test_api ''Q4'' State = []
   \<and> (''P131'', ''StateQID'') \<in> set city_claim_fields \<and> lacks_claim test_api (JStr ''Q1'') ''P131''
   \<and> enrich_city test_api (JStr ''Q1'') \<noteq> []
   \<and> map_of (enrich_city test_api (JStr ''Q1'')) ''StateQID'' = Some JNull
   \<and> (''P36'', ''CapitalQID'') \<in> set (parent_claim_fields Country)
   \<and> lacks_claim test_api (JStr ''Q1'') ''P36''
   \<and> dict_get (get_entity_info test_api ''Q1'' Country) ''CapitalQID'' = JNull
   \<and> fst (process_city test_api (city_in ''Testville'') cold_state) = Emitted testville_record
   \<and> map_of testville_record ''StateQID'' = Some JNull
   \<and> city_name (city_in ''Othertown'') = Inr ''Othertown''
   \<and> fst (get_wikidata_id down_api ''Othertown'' cold_state) = JStr ''Q3''
   \<and> entity down_api (JStr ''Q3'') = None
   \<and> (\<exists>r1 st1. process_city down_api (city_in ''Othertown'') cold_state = (Emitted r1, st1)
         \<and> process_loop down_api [city_in ''Othertown'', city_in ''Testville''] cold_state
             = process_loop down_api [city_in ''Testville''] st1)"
proof -
  have 1: "entity test_api (JStr ''Q4'') = None" by (simp add: test_api_def)
  have 2: "(''P131'', ''StateQID'') \<in> set city_claim_fields"
      "(''P36'', ''CapitalQID'') \<in> set (parent_claim_fields Country)"
    by (simp_all add: city_claim_fields_def)
  have 3: "lacks_claim test_api (JStr ''Q1'') ''P131''" "lacks_claim test_api (JStr ''Q1'') ''P36''"
    by (simp_all add: lacks_claim_def entity_parts_def test_api_def entity_doc_def)
  have 4: "enrich_city test_api (JStr ''Q1'') \<noteq> []"
    by (simp add: run_defs fixture_defs)
  have 5: "process_city test_api (city_in ''Testville'') cold_state
      = (fst (process_city test_api (city_in ''Testville'') cold_state),
         snd (process_city test_api (city_in ''Testville'') cold_state))"
    by simp
  have 6: "fst (process_city test_api (city_in ''Testville'') cold_state) = Emitted testville_record"
      "map_of (qid_lookup (snd (process_city test_api (city_in ''Testville'') cold_state))) ''Testville''
        = Some (JStr ''Q1'')"
    by (simp_all add: run_defs fixture_defs down_defs)
  have 7: "city_name (city_in ''Testville'') = Inr ''Testville''"
      "city_name (city_in ''Othertown'') = Inr ''Othertown''"
    by (simp_all add: city_in_def)
  have 8: "fst (get_wikidata_id down_api ''Othertown'' cold_state) = JStr ''Q3''"
    by (simp add: run_defs fixture_defs down_defs)
  have 9: "entity down_api (JStr ''Q3'') = None" "truthy (JStr ''Q3'')"
    by (simp_all add: down_api_def)
  note a = graceful_degradation [where a = test_api and qid = "JStr ''Q4''" and k = "''Q4''"
      and lvl = State]
  note b = graceful_degradation [where a = test_api and qid = "JStr ''Q1''" and k = "''Q1''"
      and lvl = Country and c = "city_in ''Testville''" and st = cold_state
      and r = testville_record and n = "''Testville''"
      and st' = "snd (process_city test_api (city_in ''Testville'') cold_state)"]
  note b1 = b [where p = "''P131''" and f = "''StateQID''"]
  note b2 = b [where p = "''P36''" and f = "''CapitalQID''"]
  note c = graceful_degradation [where a = down_api and qid = "JStr ''Q3''"
      and c = "city_in ''Othertown''" and st = cold_state and n = "''Othertown''"
      and cs = "[city_in ''Testville'']"]
  from a 1 have A: "enrich_city test_api (JStr ''Q4'') = []"
      "get_entity_info test_api ''Q4'' State = []"
    by simp_all
  from b1 2 3 4 have B1: "map_of (enrich_city test_api (JStr ''Q1'')) ''StateQID'' = Some JNull"
    by simp
  from b2 2 3 have B2: "dict_get (get_entity_info test_api ''Q1'' Country) ''CapitalQID'' = JNull"
    by simp
  note B = B1 B2
  from b1 2 3 4 5 6 7 have C: "map_of testville_record ''StateQID'' = Some JNull"
    by simp
  from c 7 8 9 have D: "\<exists>r1 st1. process_city down_api (city_in ''Othertown'') cold_state = (Emitted r1, st1)
         \<and> process_loop down_api [city_in ''Othertown'', city_in ''Testville''] cold_state
             = process_loop down_api [city_in ''Testville''] st1"
    by simp
  from 1 2 3 4 6 7 8 9 A B C D show ?thesis by simp
qed

section \<open>Resuming a run\<close>

lemma get_wikidata_id_resolve:
  "get_wikidata_id a n st = (qid, st') \<Longrightarrow> qid = resolve a (map_of (qid_lookup st)) n"
  by (auto simp: get_wikidata_id_def resolve_def split: option.splits)

lemma country_stage_raises:
  assumes "country_stage a qid cqid city st = (r, st')"
  shows "(\<exists>e. r = Inl e) \<longleftrightarrow>
           \<not> id_ok cqid \<or> (truthy cqid \<and> bad_country (map_of (country_cache st)) cqid)"
  using assms
  by (cases cqid)
     (auto simp: country_stage_def id_ok_def bad_country_def emit_def save_countries_def
        map_of_dict_set Let_def split: option.splits if_splits
        dest: py_get_None elim!: py_get.elims)

lemma state_stage_raises:
  assumes "state_stage a sqid city st = (r, st')"
  shows "(\<exists>e. r = Inl e) \<longleftrightarrow> \<not> id_ok sqid"
  using assms
  by (cases sqid)
     (auto simp: state_stage_def id_ok_def emit_def save_states_def
        map_of_dict_set Let_def split: option.splits if_splits)

lemma fate_step:
  assumes "process_city a c st = (res, st')" "city_name c = Inr n"
  shows "kind_of res = fate_at a st c"
  using assms(1)
proof (cases rule: process_city_cases)
  case (bad e)
  with assms(2) show ?thesis by simp
next
  case (skip city name qid)
  with assms(2) get_wikidata_id_resolve [OF skip(3)] name_of_Inr [OF assms(2)]
  show ?thesis by (simp add: fate_at_def fate_of_def)
next
  case (country_raise city name qid st1 e)
  have cc: "country_cache (emit (FetchCity qid) st1) = country_cache st"
    using get_wikidata_id_countries [OF country_raise(3)] by (simp add: emit_def)
  from country_stage_raises [OF country_raise(5)] cc
  have "\<not> id_ok (dict_get (enrich_city a qid) ''CountryQID'')
      \<or> (truthy (dict_get (enrich_city a qid) ''CountryQID'')
          \<and> bad_country (map_of (country_cache st)) (dict_get (enrich_city a qid) ''CountryQID''))"
    by simp
  with country_raise(2,4,6) assms(2) get_wikidata_id_resolve [OF country_raise(3)]
    name_of_Inr [OF assms(2)]
  show ?thesis by (auto simp: fate_at_def fate_of_def Let_def)
next
  case (state_raise city name qid st1 city2 st3 e)
  from state_stage_raises [OF state_raise(6)]
  have "\<not> id_ok (dict_get (enrich_city a qid) ''StateQID'')" by simp
  with state_raise(2,4,7) assms(2) get_wikidata_id_resolve [OF state_raise(3)]
    name_of_Inr [OF assms(2)]
  show ?thesis by (auto simp: fate_at_def fate_of_def Let_def)
next
  case (emitted city name qid st1 city2 st3 city3 st4)
  have cc: "country_cache (emit (FetchCity qid) st1) = country_cache st"
    using get_wikidata_id_countries [OF emitted(3)] by (simp add: emit_def)
  from country_stage_raises [OF emitted(5)] cc
  have 1: "\<not> (\<not> id_ok (dict_get (enrich_city a qid) ''CountryQID'')
      \<or> (truthy (dict_get (enrich_city a qid) ''CountryQID'')
          \<and> bad_country (map_of (country_cache st)) (dict_get (enrich_city a qid) ''CountryQID'')))"
    by simp
  from state_stage_raises [OF emitted(6)]
  have 2: "id_ok (dict_get (enrich_city a qid) ''StateQID'')" by simp
  from 1 2 emitted(2,4,7) assms(2) get_wikidata_id_resolve [OF emitted(3)]
    name_of_Inr [OF assms(2)]
  show ?thesis by (auto simp: fate_at_def fate_of_def Let_def)
qed

lemma resolve_grows:
  assumes "grows a st st'"
  shows "resolve a (map_of (qid_lookup st')) n = resolve a (map_of (qid_lookup st)) n"
proof (cases "map_of (qid_lookup st) n")
  case (Some q)
  with grows_qid_Some [OF assms Some] show ?thesis by (simp add: resolve_def)
next
  case None
  show ?thesis
  proof (cases "map_of (qid_lookup st') n")
    case None
    with \<open>map_of (qid_lookup st) n = None\<close> show ?thesis by (simp add: resolve_def)
  next
    case (Some q)
    with assms \<open>map_of (qid_lookup st) n = None\<close> have "search_try (search a n) = Some (Some q)"
      by (auto simp: grows_def)
    with Some \<open>map_of (qid_lookup st) n = None\<close> show ?thesis by (simp add: resolve_def)
  qed
qed

lemma bad_country_grows:
  assumes "grows a st st'"
  shows "bad_country (map_of (country_cache st')) cqid = bad_country (map_of (country_cache st)) cqid"
proof (cases cqid)
  case (JStr k)
  show ?thesis
  proof (cases "map_of (country_cache st) k")
    case (Some v)
    with grows_country_Some [OF assms Some] JStr show ?thesis by (simp add: bad_country_def)
  next
    case None
    show ?thesis
    proof (cases "map_of (country_cache st') k")
      case None
      with \<open>map_of (country_cache st) k = None\<close> JStr show ?thesis by (simp add: bad_country_def)
    next
      case (Some v)
      with assms \<open>map_of (country_cache st) k = None\<close> have "v = JObj (get_entity_info a k Country)"
        by (auto simp: grows_def)
      with Some \<open>map_of (country_cache st) k = None\<close> JStr show ?thesis by (simp add: bad_country_def)
    qed
  qed
qed (simp_all add: bad_country_def)

lemma fate_at_grows: "grows a st st' \<Longrightarrow> fate_at a st' c = fate_at a st c"
  by (simp add: fate_at_def fate_of_def resolve_grows bad_country_grows Let_def)

lemma plan_cong: "(\<And>c. c \<in> set cs \<Longrightarrow> f c = g c) \<Longrightarrow> plan f cs = plan g cs"
  by (induction cs) (auto split: fate.splits)

lemma plan_emits: "c \<in> set (plan f cs) \<Longrightarrow> f c = WillEmit \<and> c \<in> set cs"
  by (induction cs) (auto split: fate.splits)

text \<open>
  Filtering out the names of what a pass emitted leaves a list on which a second pass
  emits nothing, when the fate of a record depends on its name only.
\<close>

lemma plan_filter:
  assumes "\<And>c. f c = g (name_of c)"
  shows "name_of ` set (plan f cs) \<subseteq> S \<Longrightarrow> (\<forall>c \<in> set cs. name_of c \<in> S \<longrightarrow> f c = WillEmit)
     \<Longrightarrow> plan f (filter (\<lambda>c. name_of c \<notin> S) cs) = []"
proof (induction cs)
  case Nil
  then show ?case by simp
next
  case (Cons c cs)
  show ?case
  proof (cases "f c")
    case WillSkip
    with Cons show ?thesis by auto
  next
    case WillRaise
    with Cons.prems(2) have "name_of c \<notin> S" by auto
    with WillRaise show ?thesis by simp
  next
    case WillEmit
    with Cons.prems(1) have "name_of c \<in> S" by simp
    with WillEmit Cons show ?thesis by auto
  qed
qed

lemma process_loop_plan:
  "process_loop a cs st = (err, st') \<Longrightarrow> \<forall>c \<in> set cs. city_name c = Inr (name_of c) \<Longrightarrow>
     \<exists>new. ledger (disk st') = ledger (disk st) @ new
       \<and> map line_name new = map (\<lambda>c. JStr (name_of c)) (plan (fate_at a st) cs)
       \<and> (\<forall>l \<in> set new. valid_line l)
       \<and> (new = [] \<longrightarrow> output_file (disk st') = output_file (disk st))"
proof (induction cs arbitrary: st)
  case Nil
  then show ?case by simp
next
  case (Cons c cs)
  from Cons.prems(2) have n: "city_name c = Inr (name_of c)" by simp
  from Cons.prems(1) show ?case
  proof (cases rule: process_loop_cases)
    case (stop e)
    from fate_step [OF stop(1) n] have "fate_at a st c = WillRaise" by simp
    with ledger_process_city(1,3) [OF stop(1)] show ?thesis by simp
  next
    case (continue res st1)
    from Cons.prems(2) have "\<forall>c \<in> set cs. city_name c = Inr (name_of c)" by simp
    from Cons.IH [OF continue(3) this] obtain new where
      new: "ledger (disk st') = ledger (disk st1) @ new"
        "map line_name new = map (\<lambda>c. JStr (name_of c)) (plan (fate_at a st1) cs)"
        "\<forall>l \<in> set new. valid_line l"
        "new = [] \<longrightarrow> output_file (disk st') = output_file (disk st1)"
      by blast
    have g: "grows a st st1" using advances_process_city [OF continue(1)] by simp
    have p: "plan (fate_at a st1) cs = plan (fate_at a st) cs"
      by (rule plan_cong) (simp add: fate_at_grows [OF g])
    note k = fate_step [OF continue(1) n]
    note l = ledger_process_city(1,3) [OF continue(1)]
    show ?thesis
    proof (cases res)
      case Skipped
      with k l new p show ?thesis by simp
    next
      case (Raised e)
      with continue(2) show ?thesis by simp
    next
      case (Emitted r)
      from process_city_emitted_capital [OF continue(1) [unfolded Emitted]] n
      have r: "map_of r ''CityNameEn'' = Some (JStr (name_of c))" by auto
      then have v: "valid_line (Parsed (JObj r))" "line_name (Parsed (JObj r)) = JStr (name_of c)"
        by (simp_all add: dict_get_def)
      from k Emitted have "fate_at a st c = WillEmit" by simp
      with l(1) new(1,2,3) p v Emitted
      have "ledger (disk st') = ledger (disk st) @ (Parsed (JObj r) # new)
        \<and> map line_name (Parsed (JObj r) # new)
            = map (\<lambda>c. JStr (name_of c)) (plan (fate_at a st) (c # cs))
        \<and> (\<forall>l \<in> set (Parsed (JObj r) # new). valid_line l)"
        by simp
      then show ?thesis by blast
    qed
  qed
qed

lemma load_processed_ledger:
  "load_processed_city_names (output_file fs) = add_lines (ledger fs) {}"
  by (simp add: load_processed_city_names_def ledger_def split: option.splits)

lemma select_unprocessed_filter:
  "\<forall>c \<in> set cs. city_name c = Inr (name_of c) \<Longrightarrow>
     select_unprocessed cs P = Inr (filter (\<lambda>c. JStr (name_of c) \<notin> P) cs)"
  by (induction cs) auto

text \<open>The start of a second run on the files a first run leaves.\<close>

lemma second_startup:
  assumes "startup fs = Inr (tp1, st0)" "process_loop a tp1 st0 = (err, st1)"
    "ledger (disk st1) = ledger fs @ new" "\<forall>l \<in> set new. valid_line l"
  shows "startup (disk st1) =
           Inr (filter (\<lambda>c. JStr (name_of c) \<notin> line_name ` set new) tp1,
                \<lparr>qid_lookup = qid_lookup st1, country_cache = country_cache st1,
                 state_cache = state_cache st1, disk = disk st1, trace = []\<rparr>)"
proof -
  note s = startup_Inr [OF assms(1)]
  from s(4) obtain cities cs processed where
    i: "load_input (input_file fs) = Inr cities" "py_iter cities = Inr cs"
       "load_processed_city_names (output_file fs) = Inr processed"
       "select_unprocessed cs processed = Inr tp1"
    by blast
  note u = select_unprocessed_Inr [OF i(4)]
  have sy: "synced st1" using synced_process_loop [OF assms(2) s(3)] .
  have inp: "load_input (input_file (disk st1)) = Inr cities"
    using input_file_process_loop [OF assms(2)] s(1) i(1) by simp
  have led: "load_processed_city_names (output_file (disk st1))
      = Inr (processed \<union> line_name ` set new)"
    using i(3) assms(3) add_lines_valid [OF assms(4), of processed]
    by (simp add: load_processed_ledger add_lines_append)
  have sel: "select_unprocessed cs (processed \<union> line_name ` set new)
      = Inr (filter (\<lambda>c. JStr (name_of c) \<notin> line_name ` set new) tp1)"
    using select_unprocessed_filter [of cs "processed \<union> line_name ` set new"] u
    by (simp add: conj_commute)
  from sy inp led sel i(2) show ?thesis
    by (simp add: startup_def synced_def)
qed

text \<open>
  C1. Idempotent resumability: for every state of the files and every external source
  that answers the same request in the same way, a second run started from the files
  the first run left (ledger and caches) appends no record: the ledger after the second
  run is the ledger after the first run. This holds whether the first run ran to its
  end, ended with an exception at startup or ended with one in the middle of the list.
\<close>

theorem idempotent_resumability:
  assumes "process_entries a fs = (err1, fs1, tr1)" and "process_entries a fs1 = (err2, fs2, tr2)"
  shows "ledger fs2 = ledger fs1 \<and> output_file fs2 = output_file fs1"
  using assms(1)
proof (cases rule: process_entries_cases)
  case (startup_error e)
  with assms show ?thesis by simp
next
  case (run tp1 st0 st1)
  note s = startup_Inr [OF run(1)]
  from startup_to_process [OF run(1)]
  have names: "\<forall>c \<in> set tp1. city_name c = Inr (name_of c)" by auto
  from process_loop_plan [OF run(2) names] s(1) obtain new1 where
    n1: "ledger (disk st1) = ledger fs @ new1"
        "map line_name new1 = map (\<lambda>c. JStr (name_of c)) (plan (fate_at a st0) tp1)"
        "\<forall>l \<in> set new1. valid_line l"
    by auto
  let ?tp2 = "filter (\<lambda>c. JStr (name_of c) \<notin> line_name ` set new1) tp1"
  let ?st2 = "\<lparr>qid_lookup = qid_lookup st1, country_cache = country_cache st1,
                 state_cache = state_cache st1, disk = disk st1, trace = []\<rparr>"
  have st: "startup fs1 = Inr (?tp2, ?st2)"
    using second_startup [OF run(1,2) n1(1,3)] run(3) by simp
  obtain st2' where l2: "process_loop a ?tp2 ?st2 = (err2, st2')" and f2: "fs2 = disk st2'"
    using assms(2) st by (auto simp: process_entries_def split: prod.splits)
  have names2: "\<forall>c \<in> set ?tp2. city_name c = Inr (name_of c)" using names by simp
  from process_loop_plan [OF l2 names2] obtain new2 where
    n2: "ledger (disk st2') = ledger (disk ?st2) @ new2"
        "map line_name new2 = map (\<lambda>c. JStr (name_of c)) (plan (fate_at a ?st2) ?tp2)"
        "new2 = [] \<longrightarrow> output_file (disk st2') = output_file (disk ?st2)"
    by blast
  have g: "grows a st0 st1" using advances_process_loop [OF run(2)] by simp
  have same: "fate_at a ?st2 c = fate_at a st0 c" for c
    using fate_at_grows [OF g, of c] by (simp add: fate_at_def)
  let ?S = "{n. JStr n \<in> line_name ` set new1}"
  have img: "line_name ` set new1 = (\<lambda>c. JStr (name_of c)) ` set (plan (fate_at a st0) tp1)"
    using n1(2) by (metis image_set)
  have sub: "name_of ` set (plan (fate_at a st0) tp1) \<subseteq> ?S"
    unfolding img by auto
  have emit: "\<forall>c \<in> set tp1. name_of c \<in> ?S \<longrightarrow> fate_at a st0 c = WillEmit"
  proof (intro ballI impI)
    fix c assume "c \<in> set tp1" "name_of c \<in> ?S"
    then obtain d where d: "d \<in> set (plan (fate_at a st0) tp1)" "name_of d = name_of c"
      unfolding img by auto
    from plan_emits [OF d(1)] d(2) show "fate_at a st0 c = WillEmit"
      by (simp add: fate_at_def)
  qed
  have "plan (fate_at a st0) (filter (\<lambda>c. name_of c \<notin> ?S) tp1) = []"
    by (rule plan_filter [where g = "fate_of a (map_of (qid_lookup st0)) (map_of (country_cache st0))",
          OF _ sub emit]) (simp add: fate_at_def)
  then have "plan (fate_at a ?st2) ?tp2 = []"
    using plan_cong [of ?tp2 "fate_at a ?st2" "fate_at a st0"] same by simp
  with n2(2) have "new2 = []" by simp
  with n2(1,3) f2 run(3) show ?thesis by simp
qed

theorem idempotent_resumability_witness:
  "process_entries test_api fresh_files =
     (None, after_first_run,
      [Search ''Testville'', FetchCity (JStr ''Q1''), FetchEntity ''Q2'' Country, Sleep 1,
       Search ''Nowhere'',
       Search ''Othertown'', FetchCity (JStr ''Q3''), FetchEntity ''Q4'' State, Sleep 1])
   \<and> ledger after_first_run = [Parsed (JObj testville_record), Parsed (JObj othertown_record)]
   \<and> snd (snd (process_entries test_api after_first_run)) = [Search ''Nowhere'']
   \<and> ledger (fst (snd (process_entries test_api after_first_run))) = ledger after_first_run
   \<and> output_file (fst (snd (process_entries test_api after_first_run))) = output_file after_first_run"
proof -
  have 1: "ledger after_first_run = [Parsed (JObj testville_record), Parsed (JObj othertown_record)]"
    by (simp add: ledger_def after_first_run_def fresh_files_def)
  have 2: "process_entries test_api after_first_run
      = (fst (process_entries test_api after_first_run),
         fst (snd (process_entries test_api after_first_run)),
         snd (snd (process_entries test_api after_first_run)))"
    by simp
  have 3: "snd (snd (process_entries test_api after_first_run)) = [Search ''Nowhere'']"
    by (simp add: second_run)
  from idempotent_resumability [OF first_run 2] first_run 1 3
  show ?thesis by simp
qed

end
